theory Spec2Isabelle
  imports Main "HOL-Library.Sublist" "HOL-Library.Multiset"
begin

section \<open>Errors and the structured-document reader\<close>

text \<open>
  The exceptions that the functions of \<^verbatim>\<open>unreal_engine_docset.py\<close> raise or let through.
  \<open>RuntimeError\<close> is the one \<^verbatim>\<open>read_xml_file\<close> raises itself; \<open>StopIteration\<close> comes from
  \<^verbatim>\<open>next(iter(...))\<close> on an empty XPath result; \<open>KeyError\<close> from \<^verbatim>\<open>element.attrib["href"]\<close>;
  \<open>IndexError\<close> from \<^verbatim>\<open>elements[i]\<close>; \<open>AttributeError\<close> from \<^verbatim>\<open>None.split\<close>; \<open>TypeError\<close> from
  \<^verbatim>\<open>addprevious\<close> on the root element; \<open>OSError\<close> and \<open>UnicodeError\<close> from opening, reading and
  encoding a file.
\<close>

datatype error =
  RuntimeError | StopIteration | KeyError | IndexError | AttributeError | TypeError
  | OSError | UnicodeError

text \<open>
  One pass through the \<^verbatim>\<open>try\<close> block of \<^verbatim>\<open>read_xml_file\<close> (open, read, encode,
  \<^verbatim>\<open>fromstring\<close>) ends in one of three ways: a parsed tree, \<^verbatim>\<open>etree.ParserError\<close> (the only
  exception the \<^verbatim>\<open>except\<close> clause catches), or any other exception.
\<close>

datatype 'x attempt = Parsed 'x | ParserError | Raises error

text \<open>What the reader does besides returning: it tries, and it sleeps 0.1 seconds.\<close>

datatype event = Attempt | Sleep_100ms

text \<open>
  \<^verbatim>\<open>
  i = 0
  while i < attempts:
      try:
          with open(xml_path, "r") as xml_file:
              xml = xml_file.read()
          return fromstring(xml.encode("utf-8"))
      except etree.ParserError:
          i += 1
          time.sleep(0.1)
          continue
  raise RuntimeError('Could not parse "%s" file!', xml_path)
  \<close>
  The first argument gives the outcome of the try block at each value of \<open>i\<close>; the last
  one is the trace of events so far.
\<close>

function read_xml_loop ::
  "(nat \<Rightarrow> 'x attempt) \<Rightarrow> int \<Rightarrow> int \<Rightarrow> event list \<Rightarrow> (error + 'x) \<times> event list" where
  "read_xml_loop outcome attempts i trace =
     (if i < attempts then
        (case outcome (nat i) of
           Parsed xml \<Rightarrow> (Inr xml, trace @ [Attempt])
         | ParserError \<Rightarrow> read_xml_loop outcome attempts (i + 1) (trace @ [Attempt, Sleep_100ms])
         | Raises e \<Rightarrow> (Inl e, trace @ [Attempt]))
      else (Inl RuntimeError, trace))"
  by pat_completeness auto
termination
  by (relation "measure (\<lambda>(outcome, attempts, i, trace). nat (attempts - i))") auto

declare read_xml_loop.simps [simp del]

definition read_xml_file ::
  "(nat \<Rightarrow> 'x attempt) \<Rightarrow> int \<Rightarrow> (error + 'x) \<times> event list" where
  "read_xml_file outcome attempts = read_xml_loop outcome attempts 0 []"

text \<open>The default of the parameter \<^verbatim>\<open>attempts\<close>.\<close>

definition default_attempts :: int where
  "default_attempts = 10"

section \<open>Strings of the Python runtime\<close>

text \<open>\<^verbatim>\<open>f"{x}"\<close> of a value that is a string or \<^verbatim>\<open>None\<close>.\<close>

definition py_format :: "string option \<Rightarrow> string" where
  "py_format v = (case v of None \<Rightarrow> ''None'' | Some s \<Rightarrow> s)"

text \<open>\<^verbatim>\<open>str(n)\<close> of a non-negative integer: its decimal digits.\<close>

fun py_str_nat :: "nat \<Rightarrow> string" where
  "py_str_nat n =
     (if n < 10 then [char_of (48 + n)]
      else py_str_nat (n div 10) @ [char_of (48 + n mod 10)])"

declare py_str_nat.simps [simp del]

text \<open>
  \<^verbatim>\<open>s.split(sep)\<close> for a non-empty separator: the pieces between the occurrences of
  \<open>sep\<close>, found from the left and not overlapping. The second argument is the piece
  being read.
\<close>

function py_split_from :: "string \<Rightarrow> string \<Rightarrow> string \<Rightarrow> string list" where
  "py_split_from sep piece [] = [piece]"
| "py_split_from sep piece (c # cs) =
     (if sep \<noteq> [] \<and> prefix sep (c # cs)
      then piece # py_split_from sep [] (drop (length sep) (c # cs))
      else py_split_from sep (piece @ [c]) cs)"
  by pat_completeness auto
termination
  by (relation "measure (\<lambda>(sep, piece, s). length s)") auto

definition py_split :: "string \<Rightarrow> string \<Rightarrow> string list" where
  "py_split sep s = py_split_from sep [] s"

text \<open>\<^verbatim>\<open>sub in s\<close> on strings.\<close>

fun py_in :: "string \<Rightarrow> string \<Rightarrow> bool" where
  "py_in sub [] = (sub = [])"
| "py_in sub (c # cs) = (prefix sub (c # cs) \<or> py_in sub cs)"

text \<open>
  \<^verbatim>\<open>html.escape(s)\<close> with its default \<^verbatim>\<open>quote=True\<close>: \<^verbatim>\<open>&\<close> is replaced first, then
  \<^verbatim>\<open><\<close>, \<^verbatim>\<open>>\<close>, the double and the single quote, so each character of \<open>s\<close> is replaced once.
\<close>

definition escape_char :: "char \<Rightarrow> string" where
  "escape_char c =
     (if c = CHR ''&'' then ''&amp;''
      else if c = CHR ''<'' then ''&lt;''
      else if c = CHR ''>'' then ''&gt;''
      else if c = CHR 0x22 then ''&quot;''
      else if c = CHR 0x27 then ''&#x27;''
      else [c])"

definition html_escape :: "string \<Rightarrow> string" where
  "html_escape s = concat (map escape_char s)"

text \<open>
  \<^verbatim>\<open>re.search(pattern, string, re.MULTILINE) is not None\<close>, or \<open>None\<close> where compiling the
  pattern raises \<^verbatim>\<open>re.error\<close>. A pattern that has none of the special characters
  \<^verbatim>\<open>. ^ $ * + ? { } [ ] | ( )\<close> and no backslash matches itself only, so the search is a
  substring test; every other pattern is left to the regular-expression engine, a
  parameter.
\<close>

definition re_special :: "char \<Rightarrow> bool" where
  "re_special c = (c \<in> set ''.^$*+?{}[]|()'' \<or> c = CHR 0x5C)"

definition re_search :: "(string \<Rightarrow> string \<Rightarrow> bool option) \<Rightarrow> string \<Rightarrow> string \<Rightarrow> bool option" where
  "re_search engine pattern s =
     (if list_ex re_special pattern then engine pattern s else Some (py_in pattern s))"

section \<open>The document tree of lxml\<close>

text \<open>
  An element as lxml holds it: tag, attributes, the text before its first child, its
  children, and the text after its closing tag (\<^verbatim>\<open>.tail\<close>). Comments and processing
  instructions are not modelled.
\<close>

datatype element =
  Element (tag: string) (attrib: "(string \<times> string) list") (text_of: "string option")
    (children: "element list") (tail_of: "string option")

text \<open>\<^verbatim>\<open>element.get(key)\<close>.\<close>

definition get_attr :: "element \<Rightarrow> string \<Rightarrow> string option" where
  "get_attr e k = map_of (attrib e) k"

text \<open>A node of a tree is named by the child indices on the way from the root.\<close>

type_synonym node = "nat list"

text \<open>The context element and all its descendants, in document order.\<close>

fun descendant_or_self :: "element \<Rightarrow> (node \<times> element) list"
  and descendants_from :: "nat \<Rightarrow> element list \<Rightarrow> (node \<times> element) list" where
  "descendant_or_self (Element t a x cs tx) = ([], Element t a x cs tx) # descendants_from 0 cs"
| "descendants_from i [] = []"
| "descendants_from i (c # cs) =
     map (\<lambda>(q, d). (i # q, d)) (descendant_or_self c) @ descendants_from (Suc i) cs"

text \<open>
  The text nodes below an element in document order, each with the element it is a child
  of: an element's own text, then for each child the text nodes inside it and its tail.
\<close>

fun text_nodes :: "node \<Rightarrow> element \<Rightarrow> (node \<times> string) list"
  and text_nodes_from :: "node \<Rightarrow> nat \<Rightarrow> element list \<Rightarrow> (node \<times> string) list" where
  "text_nodes p (Element t a x cs tx) =
     (case x of None \<Rightarrow> [] | Some s \<Rightarrow> [(p, s)]) @ text_nodes_from p 0 cs"
| "text_nodes_from p i [] = []"
| "text_nodes_from p i (c # cs) =
     text_nodes (p @ [i]) c @ (case tail_of c of None \<Rightarrow> [] | Some s \<Rightarrow> [(p, s)])
       @ text_nodes_from p (Suc i) cs"

text \<open>\<^verbatim>\<open>element.text_content()\<close>: the text nodes below the element, joined.\<close>

definition text_content :: "element \<Rightarrow> string" where
  "text_content e = concat (map snd (text_nodes [] e))"

subsection \<open>The XPath expressions the program uses\<close>

text \<open>
  A location path is a list of steps. \<open>Child\<close> is \<^verbatim>\<open>/name\<close>; \<open>Descendant\<close> is \<^verbatim>\<open>//name\<close>
  (short for \<^verbatim>\<open>/descendant-or-self::node()/child::name\<close>). The predicates are the four
  forms the collectors use.
\<close>

datatype predicate =
  AttrEq string string
  | NotAttrEq string string
  | AttrStartsWith string string
  | Position nat

datatype axis = Child | Descendant

datatype step = Step axis string "predicate list"

text \<open>
  A predicate filters the candidates of one step that share a parent; \<^verbatim>\<open>[n]\<close> keeps the
  n-th of those still there. A missing attribute has the string value \<^verbatim>\<open>""\<close> in
  \<^verbatim>\<open>starts-with\<close>.
\<close>

fun apply_predicate :: "predicate \<Rightarrow> (nat \<times> element) list \<Rightarrow> (nat \<times> element) list" where
  "apply_predicate (AttrEq k v) xs = filter (\<lambda>(i, e). get_attr e k = Some v) xs"
| "apply_predicate (NotAttrEq k v) xs = filter (\<lambda>(i, e). get_attr e k \<noteq> Some v) xs"
| "apply_predicate (AttrStartsWith k v) xs =
     filter (\<lambda>(i, e). prefix v (case get_attr e k of None \<Rightarrow> [] | Some s \<Rightarrow> s)) xs"
| "apply_predicate (Position n) xs = (if 0 < n \<and> n \<le> length xs then [xs ! (n - 1)] else [])"

text \<open>\<^verbatim>\<open>child::name[p1][p2]...\<close> from one context element.\<close>

definition child_step :: "string \<Rightarrow> predicate list \<Rightarrow> element \<Rightarrow> (nat \<times> element) list" where
  "child_step name ps e =
     fold apply_predicate ps (filter (\<lambda>(i, c). tag c = name) (enumerate 0 (children e)))"

text \<open>The nodes a path selects from the context element at node \<open>p\<close>, in no particular order.\<close>

fun select :: "step list \<Rightarrow> node \<Rightarrow> element \<Rightarrow> node list" where
  "select [] p e = [p]"
| "select (Step Child name ps # steps) p e =
     concat (map (\<lambda>(i, c). select steps (p @ [i]) c) (child_step name ps e))"
| "select (Step Descendant name ps # steps) p e =
     concat (map (\<lambda>(q, d). concat (map (\<lambda>(i, c). select steps (p @ q @ [i]) c) (child_step name ps d)))
       (descendant_or_self e))"

text \<open>
  \<^verbatim>\<open>xml.xpath(path)\<close> for a path that selects elements: a node-set, returned as a list in
  document order, every node once.
\<close>

definition xml_xpath :: "step list \<Rightarrow> element \<Rightarrow> (node \<times> element) list" where
  "xml_xpath steps root = filter (\<lambda>(q, d). q \<in> set (select steps [] root)) (descendant_or_self root)"

text \<open>\<^verbatim>\<open>xml.xpath(path + "/text()")\<close>: the text children of the selected elements.\<close>

definition xpath_text :: "step list \<Rightarrow> element \<Rightarrow> string list" where
  "xpath_text steps root =
     map snd (filter (\<lambda>(q, s). q \<in> set (select steps [] root)) (text_nodes [] root))"

text \<open>An element has a child with the given tag and attribute value.\<close>

definition has_child :: "string \<Rightarrow> string \<Rightarrow> string \<Rightarrow> element \<Rightarrow> bool" where
  "has_child nm k v d = list_ex (\<lambda>c. tag c = nm \<and> get_attr c k = Some v) (children d)"

section \<open>The API classifier\<close>

text \<open>\<^verbatim>\<open>sep.join(pieces)\<close>.\<close>

fun py_join :: "string \<Rightarrow> string list \<Rightarrow> string" where
  "py_join sep [] = []"
| "py_join sep [x] = x"
| "py_join sep (x # y # ys) = x @ sep @ py_join sep (y # ys)"

text \<open>
  The dataclass \<^verbatim>\<open>ApiInformation\<close>; each field is declared \<^verbatim>\<open>str | None\<close>.
\<close>

record ApiInformation =
  name :: "string option"
  ue_type :: "string option"
  dash_type :: "string option"

text \<open>The dict \<^verbatim>\<open>MAPPING_API_TYPE_TO_ENTRY_TYPE\<close>, in the order \<^verbatim>\<open>.items()\<close> yields it.\<close>

definition MAPPING_API_TYPE_TO_ENTRY_TYPE :: "(string \<times> string) list" where
  "MAPPING_API_TYPE_TO_ENTRY_TYPE =
     [(''class'', ''Class''), (''UCLASS'', ''Class''), (''struct'', ''Struct''),
      (''USTRUCT'', ''Struct''), (''union'', ''Union'')]"

text \<open>
  \<^verbatim>\<open>
  title = next(iter(xml.xpath('.//h1[@id="H1TitleId"]/text()')))
  syntax = "\n".join(element.text_content()
                     for element in xml.xpath('.//div[@class="simplecode_api"]/p'))
  return title, syntax
  \<close>
\<close>

definition collect_api_name_and_syntax :: "element \<Rightarrow> error + (string \<times> string)" where
  "collect_api_name_and_syntax xml =
     (case xpath_text [Step Descendant ''h1'' [AttrEq ''id'' ''H1TitleId'']] xml of
        [] \<Rightarrow> Inl StopIteration
      | title # _ \<Rightarrow>
          Inr (title,
               py_join [CHR 0x0A]
                 (map (\<lambda>(q, element). text_content element)
                    (xml_xpath [Step Descendant ''div'' [AttrEq ''class'' ''simplecode_api''],
                            Step Child ''p'' []] xml))))"

text \<open>
  The \<^verbatim>\<open>for\<close> loop of \<^verbatim>\<open>collect_api_information\<close> over the items of the mapping that are
  left, and the \<^verbatim>\<open>return\<close> after it. \<^verbatim>\<open>re.error\<close> skips to the next item.
\<close>

fun collect_api_information_loop ::
  "(string \<Rightarrow> string \<Rightarrow> bool option) \<Rightarrow> string \<Rightarrow> string \<Rightarrow> (string \<times> string) list
   \<Rightarrow> ApiInformation" where
  "collect_api_information_loop engine api_name api_syntax [] =
     \<lparr>name = Some api_name, ue_type = Some ''object'', dash_type = Some ''Object''\<rparr>"
| "collect_api_information_loop engine api_name api_syntax ((api_type, entry_type) # items) =
     (case re_search engine (api_type @ '' '' @ api_name) api_syntax of
        None \<Rightarrow> collect_api_information_loop engine api_name api_syntax items
      | Some found \<Rightarrow>
          if found
          then \<lparr>name = Some api_name, ue_type = Some api_type, dash_type = Some entry_type\<rparr>
          else collect_api_information_loop engine api_name api_syntax items)"

definition collect_api_information ::
  "(string \<Rightarrow> string \<Rightarrow> bool option) \<Rightarrow> element \<Rightarrow> error + ApiInformation" where
  "collect_api_information engine xml =
     (case collect_api_name_and_syntax xml of
        Inl e \<Rightarrow> Inl e
      | Inr (api_name, api_syntax) \<Rightarrow>
          Inr (collect_api_information_loop engine api_name api_syntax
                 MAPPING_API_TYPE_TO_ENTRY_TYPE))"

text \<open>
  A tree as the parser builds it has no empty text node: where there is no text,
  \<^verbatim>\<open>.text\<close> and \<^verbatim>\<open>.tail\<close> are \<^verbatim>\<open>None\<close>.
\<close>

definition parsed_tree :: "element \<Rightarrow> bool" where
  "parsed_tree xml = list_all (\<lambda>(q, s). s \<noteq> []) (text_nodes [] xml)"

text \<open>The tree has an \<^verbatim>\<open>h1\<close> element with the id \<^verbatim>\<open>H1TitleId\<close>, the root counted.\<close>

definition has_title_heading :: "element \<Rightarrow> bool" where
  "has_title_heading xml =
     list_ex (\<lambda>(q, d). tag d = ''h1'' \<and> get_attr d ''id'' = Some ''H1TitleId'')
       (descendant_or_self xml)"

section \<open>Files and paths\<close>

text \<open>
  What the program asks of its surroundings while it processes pages:
  \<^item> \<open>path_exists p\<close> is \<^verbatim>\<open>Path(p).exists()\<close>;
  \<^item> \<open>index_exists html_path link\<close> is
    \<^verbatim>\<open>(html_path.parent / Path(link) / "index.html").exists()\<close>;
  \<^item> \<open>try_read p i\<close> is the outcome of the try block of \<^verbatim>\<open>read_xml_file(p)\<close> when its
    counter is \<open>i\<close>;
  \<^item> \<open>re_engine\<close> is the regular-expression engine for patterns with special characters.
  Paths are the strings \<^verbatim>\<open>str(path)\<close> gives. The world does not change while pages are
  processed: no file is deleted, and a page that is rewritten keeps its heading and its
  syntax blocks, which is all that the processing of another page reads of it.
\<close>

record world =
  path_exists :: "string \<Rightarrow> bool"
  index_exists :: "string \<Rightarrow> string \<Rightarrow> bool"
  try_read :: "string \<Rightarrow> nat \<Rightarrow> element attempt"
  re_engine :: "string \<Rightarrow> string \<Rightarrow> bool option"

text \<open>
  \<^verbatim>\<open>re.sub(r"\\?/?index.html$", "", s)\<close>. Without \<^verbatim>\<open>re.MULTILINE\<close> the \<^verbatim>\<open>$\<close> matches at the
  end of \<open>s\<close> and before a newline that ends \<open>s\<close>; the dot is any character but a
  newline; so at most one match exists, and the leftmost one takes a slash before
  \<^verbatim>\<open>index\<close> and a backslash before that.
\<close>

definition ends_with_index :: "string \<Rightarrow> bool" where
  "ends_with_index s =
     (10 \<le> length s \<and>
      (let t = drop (length s - 10) s
       in take 5 t = ''index'' \<and> t ! 5 \<noteq> CHR 0x0A \<and> drop 6 t = ''html''))"

definition drop_last_if :: "char \<Rightarrow> string \<Rightarrow> string" where
  "drop_last_if c s = (if s \<noteq> [] \<and> last s = c then butlast s else s)"

definition strip_index :: "string \<Rightarrow> string" where
  "strip_index s =
     (let body = drop_last_if (CHR 0x0A) s;
          newline = drop (length body) s
      in if ends_with_index body
         then drop_last_if (CHR 0x5C) (drop_last_if (CHR ''/'') (take (length body - 10) body))
                @ newline
         else s)"

text \<open>
  \<^verbatim>\<open>
  parent = re.sub(r"\\?/?index.html$", "", str(parent))
  return f"{parent}/{name}"
  \<close>
\<close>

definition join_path :: "string \<Rightarrow> string \<Rightarrow> string" where
  "join_path parent name' = strip_index parent @ ''/'' @ name'"

section \<open>Collectors\<close>

text \<open>
  A value of the pairs a collector returns is \<^verbatim>\<open>collect_api_information(...).name\<close>, declared
  \<^verbatim>\<open>str | None\<close>, or a string; \<^verbatim>\<open>cast(str, ...)\<close> converts nothing. So the name of a
  collected pair, and the name and type of an \<^verbatim>\<open>Entry\<close>, are optional strings here.
\<close>

type_synonym collection = "(string option \<times> string) list"

text \<open>
  \<^verbatim>\<open>
  collection = []
  for element in elements:
      collected_path = join_path(html_path, element.attrib["href"])
      if not Path(collected_path).exists():
          continue
      collected_name = collect_api_information(read_xml_file(collected_path)).name
      collection.append((collected_name, collected_path))
  return collection
  \<close>
  The third argument is \<^verbatim>\<open>collection\<close> so far.
\<close>

fun collector_cpp_default_loop ::
  "world \<Rightarrow> string \<Rightarrow> collection \<Rightarrow> element list \<Rightarrow> error + collection" where
  "collector_cpp_default_loop w html_path collection [] = Inr collection"
| "collector_cpp_default_loop w html_path collection (element # elements) =
     (case get_attr element ''href'' of
        None \<Rightarrow> Inl KeyError
      | Some href \<Rightarrow>
          (let collected_path = join_path html_path href
           in if \<not> path_exists w collected_path
              then collector_cpp_default_loop w html_path collection elements
              else
                (case fst (read_xml_file (try_read w collected_path) default_attempts) of
                   Inl e \<Rightarrow> Inl e
                 | Inr xml \<Rightarrow>
                     (case collect_api_information (re_engine w) xml of
                        Inl e \<Rightarrow> Inl e
                      | Inr info \<Rightarrow>
                          collector_cpp_default_loop w html_path
                            (collection @ [(ApiInformation.name info, collected_path)])
                            elements))))"

definition collector_cpp_default ::
  "world \<Rightarrow> element list \<Rightarrow> ApiInformation \<Rightarrow> string \<Rightarrow> error + collection" where
  "collector_cpp_default w elements parent_api_information html_path =
     collector_cpp_default_loop w html_path [] elements"

text \<open>
  \<^verbatim>\<open>
  collection = []
  for element in elements:
      name = element.text_content()
      if parent_api_information.ue_type is not None:
          name = f"{parent_api_information.name}.{name}"
      collection.append((name, f"{html_path}#{name}"))
  return collection
  \<close>
\<close>

fun collector_cpp_nohref_loop ::
  "ApiInformation \<Rightarrow> string \<Rightarrow> collection \<Rightarrow> element list \<Rightarrow> collection" where
  "collector_cpp_nohref_loop parent_api_information html_path collection [] = collection"
| "collector_cpp_nohref_loop parent_api_information html_path collection (element # elements) =
     (let name' = text_content element;
          name' = (if ue_type parent_api_information \<noteq> None
                   then py_format (ApiInformation.name parent_api_information) @ ''.'' @ name'
                   else name')
      in collector_cpp_nohref_loop parent_api_information html_path
           (collection @ [(Some name', html_path @ ''#'' @ name')]) elements)"

definition collector_cpp_nohref ::
  "world \<Rightarrow> element list \<Rightarrow> ApiInformation \<Rightarrow> string \<Rightarrow> error + collection" where
  "collector_cpp_nohref w elements parent_api_information html_path =
     Inr (collector_cpp_nohref_loop parent_api_information html_path [] elements)"

text \<open>The dataclass \<^verbatim>\<open>Collector\<close>; \<open>xpath\<close> holds the expression as its steps.\<close>

record Collector =
  type :: string
  xpath :: "step list"
  processor :: "world \<Rightarrow> element list \<Rightarrow> ApiInformation \<Rightarrow> string \<Rightarrow> error + collection"

text \<open>
  \<^verbatim>\<open>.//div[@id=ID]//td[@class="name-cell"][N]/a[not(@class="dashAnchor")]\<close> and
  \<^verbatim>\<open>.//div[@id=ID]//td[@class="name-cell"][N]/p\<close>, the shapes of most rules of the table.
\<close>

definition cell_links :: "predicate \<Rightarrow> predicate list \<Rightarrow> step list" where
  "cell_links region cell =
     [Step Descendant ''div'' [region],
      Step Descendant ''td'' (AttrEq ''class'' ''name-cell'' # cell),
      Step Child ''a'' [NotAttrEq ''class'' ''dashAnchor'']]"

definition cell_paragraphs :: "predicate \<Rightarrow> predicate list \<Rightarrow> step list" where
  "cell_paragraphs region cell =
     [Step Descendant ''div'' [region],
      Step Descendant ''td'' (AttrEq ''class'' ''name-cell'' # cell),
      Step Child ''p'' []]"

text \<open>The table \<^verbatim>\<open>COLLECTORS_CPP\<close>, in its order.\<close>

definition COLLECTORS_CPP :: "Collector list" where
  "COLLECTORS_CPP =
     [\<lparr>Collector.type = ''Module'',
        xpath = cell_links (AttrEq ''class'' ''modules-list'') [],
        processor = collector_cpp_default\<rparr>,
      \<lparr>Collector.type = ''Class'',
        xpath = cell_links (AttrEq ''id'' ''classes'') [Position 1],
        processor = collector_cpp_default\<rparr>,
      \<lparr>Collector.type = ''Constructor'',
        xpath = cell_links (AttrEq ''id'' ''constructor'') [Position 1],
        processor = collector_cpp_default\<rparr>,
      \<lparr>Collector.type = ''Destructor'',
        xpath = cell_links (AttrEq ''id'' ''destructor'') [Position 1],
        processor = collector_cpp_default\<rparr>,
      \<lparr>Collector.type = ''Type'',
        xpath = cell_links (AttrEq ''id'' ''typedefs'') [Position 1],
        processor = collector_cpp_default\<rparr>,
      \<lparr>Collector.type = ''Enum'',
        xpath = cell_links (AttrEq ''id'' ''enums'') [Position 1],
        processor = collector_cpp_default\<rparr>,
      \<lparr>Collector.type = ''Variable'',
        xpath = cell_links (AttrEq ''id'' ''variables'') [Position 2],
        processor = collector_cpp_default\<rparr>,
      \<lparr>Collector.type = ''Variable'',
        xpath = cell_links (AttrEq ''id'' ''deprecatedvariables'') [Position 2],
        processor = collector_cpp_default\<rparr>,
      \<lparr>Collector.type = ''Variable'',
        xpath = cell_paragraphs (AttrEq ''id'' ''variables'') [Position 2],
        processor = collector_cpp_nohref\<rparr>,
      \<lparr>Collector.type = ''Variable'',
        xpath = cell_paragraphs (AttrEq ''id'' ''deprecatedvariables'') [Position 2],
        processor = collector_cpp_nohref\<rparr>,
      \<lparr>Collector.type = ''Constant'',
        xpath = cell_links (AttrEq ''id'' ''constants'') [Position 1],
        processor = collector_cpp_default\<rparr>,
      \<lparr>Collector.type = ''Function'',
        xpath = cell_links (AttrStartsWith ''id'' ''functions_'') [Position 2],
        processor = collector_cpp_default\<rparr>,
      \<lparr>Collector.type = ''Function'',
        xpath = cell_links (AttrStartsWith ''id'' ''deprecatedfunctions'') [Position 2],
        processor = collector_cpp_default\<rparr>]"

section \<open>The page processor\<close>

text \<open>The dataclass \<^verbatim>\<open>Entry\<close>; equality and hash are those of the three fields.\<close>

record Entry =
  name :: "string option"
  path :: string
  type :: "string option"

text \<open>\<^verbatim>\<open>s.strip()\<close>, for the whitespace of ASCII.\<close>

definition py_space :: "char \<Rightarrow> bool" where
  "py_space c = (c \<in> set [CHR 0x09, CHR 0x0A, CHR 0x0B, CHR 0x0C, CHR 0x0D,
                           CHR 0x1C, CHR 0x1D, CHR 0x1E, CHR 0x1F, CHR 0x20])"

definition py_strip :: "string \<Rightarrow> string" where
  "py_strip s = rev (dropWhile py_space (rev (dropWhile py_space s)))"

text \<open>
  \<^verbatim>\<open>
  index_path = html_path.parent / Path(link) / "index.html"
  if not index_path.exists():
      return link
  return f"{link}/index.html"
  \<close>
\<close>

definition localiser :: "world \<Rightarrow> string \<Rightarrow> string \<Rightarrow> string" where
  "localiser w html_path link =
     (if \<not> index_exists w html_path link then link else link @ ''/index.html'')"

text \<open>
  \<^verbatim>\<open>xml.rewrite_links(repl)\<close> of lxml, for a function that returns strings: every link
  attribute of every element gets the value \<open>repl\<close> gives for its stripped value. The
  links that lxml finds elsewhere (style sheets, \<^verbatim>\<open>meta\<close> refresh, \<^verbatim>\<open>param\<close> and \<^verbatim>\<open>object\<close>
  elements) and a \<^verbatim>\<open>base\<close> element are not modelled.
\<close>

definition link_attrs :: "string list" where
  "link_attrs =
     [''action'', ''archive'', ''background'', ''cite'', ''classid'', ''codebase'', ''data'',
      ''href'', ''longdesc'', ''profile'', ''src'', ''usemap'', ''dynsrc'', ''lowsrc'',
      ''formaction'']"

definition rewrite_attr :: "(string \<Rightarrow> string) \<Rightarrow> string \<times> string \<Rightarrow> string \<times> string" where
  "rewrite_attr repl kv = (if fst kv \<in> set link_attrs then (fst kv, repl (py_strip (snd kv))) else kv)"

fun rewrite_links :: "(string \<Rightarrow> string) \<Rightarrow> element \<Rightarrow> element" where
  "rewrite_links repl (Element t a x cs tx) =
     Element t (map (rewrite_attr repl) a) x (map (rewrite_links repl) cs) tx"

text \<open>
  \<^verbatim>\<open>target.addprevious(new)\<close>: the tree with \<open>new\<close> as the sibling before the element at
  the node \<open>target\<close>. The root has no parent, and lxml raises \<^verbatim>\<open>TypeError\<close> there: \<open>None\<close>.
\<close>

fun addprevious :: "node \<Rightarrow> element \<Rightarrow> element \<Rightarrow> element option" where
  "addprevious [] new root = None"
| "addprevious [k] new (Element t a x cs tx) =
     (if k < length cs then Some (Element t a x (take k cs @ [new] @ drop k cs) tx) else None)"
| "addprevious (k # q) new (Element t a x cs tx) =
     (if k < length cs
      then (case addprevious q new (cs ! k) of
              None \<Rightarrow> None
            | Some c \<Rightarrow> Some (Element t a x (cs[k := c]) tx))
      else None)"

text \<open>
  The elements that \<^verbatim>\<open>xml.xpath\<close> returned are objects of the tree, so they stay the same
  elements when a sibling is put before one of them. Here an element is known by its
  node, and a new element at the node \<open>target\<close> moves the nodes at and after it.
\<close>

fun shift_node :: "node \<Rightarrow> node \<Rightarrow> node" where
  "shift_node [] r = r"
| "shift_node (k # q) [] = []"
| "shift_node [k] (m # r) = (if k \<le> m then Suc m # r else m # r)"
| "shift_node (k # q) (m # r) = (if k = m then m # shift_node q r else m # r)"

text \<open>
  The variables of \<^verbatim>\<open>process_cpp_html_file\<close> that its loops change: the tree \<^verbatim>\<open>xml\<close>, the
  list \<^verbatim>\<open>elements\<close> (as nodes of the tree), \<^verbatim>\<open>anchors\<close> and \<^verbatim>\<open>entries\<close>. \<open>added\<close> records the
  anchor elements given to \<^verbatim>\<open>addprevious\<close>, in order; the program does not keep it.
\<close>

record page_state =
  xml :: element
  elements :: "node list"
  anchors :: "string list"
  entries :: "Entry list"
  added :: "element list"

text \<open>
  \<^verbatim>\<open>
  anchor_element = etree.Element("a")
  anchor_element.set("class", "dashAnchor")
  anchor_name = collected_name.split("::")[-1]
  suffix = ""
  if anchor_name in anchors:
      count = anchors.count(anchor_name)
      suffix = f" (Overload {count})"
  anchors.append(anchor_name)
  anchor_name = f"{anchor_name}{suffix}"
  anchor_element.set("name", f"//apple_ref/cpp/{collected_type}/{html.escape(anchor_name)}")
  elements[i].addprevious(anchor_element)
  \<close>
\<close>

definition overload_suffix :: "string list \<Rightarrow> string \<Rightarrow> string" where
  "overload_suffix seen anchor_name =
     (if anchor_name \<in> set seen
      then '' (Overload '' @ py_str_nat (count_list seen anchor_name) @ '')''
      else [])"

definition dash_anchor :: "string option \<Rightarrow> string \<Rightarrow> element" where
  "dash_anchor collected_type anchor_name =
     Element ''a''
       [(''class'', ''dashAnchor''),
        (''name'', ''//apple_ref/cpp/'' @ py_format collected_type @ ''/'' @ html_escape anchor_name)]
       None [] None"

definition add_dash_anchor ::
  "nat \<Rightarrow> string option \<Rightarrow> string option \<Rightarrow> page_state \<Rightarrow> error + page_state" where
  "add_dash_anchor i collected_name collected_type st =
     (case collected_name of
        None \<Rightarrow> Inl AttributeError
      | Some collected \<Rightarrow>
          (let anchor_name = last (py_split ''::'' collected);
               suffix = overload_suffix (anchors st) anchor_name;
               anchor_element = dash_anchor collected_type (anchor_name @ suffix)
           in if i < length (elements st)
              then (case addprevious (elements st ! i) anchor_element (xml st) of
                      None \<Rightarrow> Inl TypeError
                    | Some tree \<Rightarrow>
                        Inr (st\<lparr>xml := tree,
                                elements := map (shift_node (elements st ! i)) (elements st),
                                anchors := anchors st @ [anchor_name],
                                added := added st @ [anchor_element]\<rparr>))
              else Inl IndexError))"

text \<open>
  \<^verbatim>\<open>
  collected_type = collector.type
  if collector.type == "Class":
      collected_xml = read_xml_file(collected_html_path)
      collected_api_information = collect_api_information(collected_xml)
      collected_type = collected_api_information.dash_type
  \<close>
\<close>

definition refine_type :: "world \<Rightarrow> string \<Rightarrow> string \<Rightarrow> error + string option" where
  "refine_type w collector_type collected_html_path =
     (if collector_type = ''Class''
      then (case fst (read_xml_file (try_read w collected_html_path) default_attempts) of
              Inl e \<Rightarrow> Inl e
            | Inr collected_xml \<Rightarrow>
                (case collect_api_information (re_engine w) collected_xml of
                   Inl e \<Rightarrow> Inl e
                 | Inr collected_api_information \<Rightarrow> Inr (dash_type collected_api_information)))
      else Inr (Some collector_type))"

text \<open>
  The inner loop, \<^verbatim>\<open>for i, collection in enumerate(collector.processor(...))\<close>, from the
  index \<open>i\<close> on. \<open>inject\<close> is \<^verbatim>\<open>add_dash_anchors and not has_dash_anchors\<close>.
\<close>

fun process_collection ::
  "world \<Rightarrow> string \<Rightarrow> bool \<Rightarrow> nat \<Rightarrow> collection \<Rightarrow> page_state \<Rightarrow> error + page_state" where
  "process_collection w collector_type inject i [] st = Inr st"
| "process_collection w collector_type inject i ((collected_name, collected_html_path) # rest) st =
     (if \<not> path_exists w collected_html_path
      then process_collection w collector_type inject (Suc i) rest st
      else
        (case refine_type w collector_type collected_html_path of
           Inl e \<Rightarrow> Inl e
         | Inr collected_type \<Rightarrow>
             (case (if inject then add_dash_anchor i collected_name collected_type st else Inr st) of
                Inl e \<Rightarrow> Inl e
              | Inr st' \<Rightarrow>
                  process_collection w collector_type inject (Suc i) rest
                    (st'\<lparr>entries := entries st' @
                           [\<lparr>Entry.name = collected_name, path = collected_html_path,
                             type = collected_type\<rparr>]\<rparr>))))"

text \<open>
  One turn of the outer loop: the elements of the collector's rule in the tree as it is
  now, the collector's pairs, \<^verbatim>\<open>anchors = []\<close>, and the inner loop.
\<close>

definition process_collector ::
  "world \<Rightarrow> bool \<Rightarrow> ApiInformation \<Rightarrow> string \<Rightarrow> Collector \<Rightarrow> page_state \<Rightarrow> error + page_state" where
  "process_collector w inject api_information html_path collector st =
     (let found = xml_xpath (Collector.xpath collector) (xml st)
      in case Collector.processor collector w (map snd found) api_information html_path of
           Inl e \<Rightarrow> Inl e
         | Inr collection \<Rightarrow>
             process_collection w (Collector.type collector) inject 0 collection
               (st\<lparr>elements := map fst found, anchors := []\<rparr>))"

fun process_collectors ::
  "world \<Rightarrow> bool \<Rightarrow> ApiInformation \<Rightarrow> string \<Rightarrow> Collector list \<Rightarrow> page_state
   \<Rightarrow> error + page_state" where
  "process_collectors w inject api_information html_path [] st = Inr st"
| "process_collectors w inject api_information html_path (collector # collectors) st =
     (case process_collector w inject api_information html_path collector st of
        Inl e \<Rightarrow> Inl e
      | Inr st' \<Rightarrow> process_collectors w inject api_information html_path collectors st')"

text \<open>\<^verbatim>\<open>len(xml.xpath('.//a[@class="dashAnchor"]')) != 0\<close>.\<close>

definition has_dash_anchors :: "element \<Rightarrow> bool" where
  "has_dash_anchors tree =
     (length (xml_xpath [Step Descendant ''a'' [AttrEq ''class'' ''dashAnchor'']] tree) \<noteq> 0)"

text \<open>
  \<^verbatim>\<open>process_cpp_html_file(html_path, collectors, add_dash_anchors)\<close>. Of the state it
  returns, \<open>entries\<close> is the list the function returns and \<open>xml\<close> is the tree it writes
  back to \<open>html_path\<close> before it returns.
\<close>

definition process_cpp_html_file ::
  "world \<Rightarrow> string \<Rightarrow> Collector list \<Rightarrow> bool \<Rightarrow> error + page_state" where
  "process_cpp_html_file w html_path collectors add_dash_anchors =
     (case fst (read_xml_file (try_read w html_path) default_attempts) of
        Inl e \<Rightarrow> Inl e
      | Inr parsed \<Rightarrow>
          (let tree = rewrite_links (localiser w html_path) parsed
           in case collect_api_information (re_engine w) tree of
                Inl e \<Rightarrow> Inl e
              | Inr api_information \<Rightarrow>
                  process_collectors w (add_dash_anchors \<and> \<not> has_dash_anchors tree)
                    api_information html_path collectors
                    \<lparr>xml = tree, elements = [], anchors = [], entries = [], added = []\<rparr>))"

section \<open>The docset processor\<close>

text \<open>
  \<^verbatim>\<open>process_map(f, items)\<close>: the results in the order of the items; an exception in a
  worker is raised in the caller.
\<close>

fun process_map :: "('a \<Rightarrow> error + 'b) \<Rightarrow> 'a list \<Rightarrow> error + 'b list" where
  "process_map f [] = Inr []"
| "process_map f (x # xs) =
     (case f x of
        Inl e \<Rightarrow> Inl e
      | Inr y \<Rightarrow> (case process_map f xs of Inl e \<Rightarrow> Inl e | Inr ys \<Rightarrow> Inr (y # ys)))"

text \<open>\<^verbatim>\<open>set(chain(*results))\<close>.\<close>

definition chain_set :: "Entry list list \<Rightarrow> Entry set" where
  "chain_set results = set (concat results)"

text \<open>
  \<^verbatim>\<open>process_cpp_docset\<close>, given the files \<^verbatim>\<open>api_directory.glob("**/*.html")\<close> lists. The
  lines it appends to the style sheet are not modelled.
\<close>

definition process_cpp_docset :: "world \<Rightarrow> string list \<Rightarrow> error + Entry set" where
  "process_cpp_docset w html_files =
     (case process_map
             (\<lambda>html_path. map_sum id entries (process_cpp_html_file w html_path COLLECTORS_CPP True))
             html_files of
        Inl e \<Rightarrow> Inl e
      | Inr results \<Rightarrow> Inr (chain_set results))"

section \<open>The manifest\<close>

text \<open>\<^verbatim>\<open>s.lower()\<close> and \<^verbatim>\<open>s.title()\<close>, for the letters of ASCII.\<close>

definition is_upper :: "char \<Rightarrow> bool" where
  "is_upper c = ((65::nat) \<le> of_char c \<and> (of_char c :: nat) \<le> 90)"

definition is_lower :: "char \<Rightarrow> bool" where
  "is_lower c = ((97::nat) \<le> of_char c \<and> (of_char c :: nat) \<le> 122)"

definition to_lower :: "char \<Rightarrow> char" where
  "to_lower c = (if is_upper c then char_of ((of_char c :: nat) + 32) else c)"

definition to_upper :: "char \<Rightarrow> char" where
  "to_upper c = (if is_lower c then char_of ((of_char c :: nat) - 32) else c)"

definition py_lower :: "string \<Rightarrow> string" where
  "py_lower s = map to_lower s"

text \<open>The first argument says whether the character before was a letter.\<close>

fun py_title_from :: "bool \<Rightarrow> string \<Rightarrow> string" where
  "py_title_from after_letter [] = []"
| "py_title_from after_letter (c # cs) =
     (if is_upper c \<or> is_lower c
      then (if after_letter then to_lower c else to_upper c) # py_title_from True cs
      else c # py_title_from False cs)"

definition py_title :: "string \<Rightarrow> string" where
  "py_title s = py_title_from False s"

text \<open>
  \<^verbatim>\<open>Path(p).stem\<close> for POSIX paths: the last component that is neither empty nor a dot,
  up to its last dot when that dot is neither its first nor its last character.
\<close>

definition path_name :: "string \<Rightarrow> string" where
  "path_name p =
     (let parts = filter (\<lambda>part. part \<noteq> [] \<and> part \<noteq> ''.'') (py_split ''/'' p)
      in if parts = [] then [] else last parts)"

definition path_stem :: "string \<Rightarrow> string" where
  "path_stem p =
     (let name' = path_name p;
          after_dot = length (takeWhile (\<lambda>c. c \<noteq> CHR ''.'') (rev name'))
      in if CHR ''.'' \<in> set name' \<and> 0 < after_dot \<and> Suc after_dot < length name'
         then take (length name' - Suc after_dot) name'
         else name')"

text \<open>
  \<^verbatim>\<open>
  if "blueprint" in Path(input).stem.lower():
      docset_type = "blueprint"
  elif "cpp" in Path(input).stem.lower():
      docset_type = "cpp"
  else:
      logging.error("Unsupported docset type, exiting!")
      return
  \<close>
\<close>

definition docset_type_of :: "string \<Rightarrow> string option" where
  "docset_type_of input =
     (if py_in ''blueprint'' (py_lower (path_stem input)) then Some ''blueprint''
      else if py_in ''cpp'' (py_lower (path_stem input)) then Some ''cpp''
      else None)"

text \<open>An item of the list given to \<^verbatim>\<open>generate_plist\<close>: key, type, and a value or \<^verbatim>\<open>None\<close>.\<close>

type_synonym plist_item = "string \<times> string \<times> string option"

text \<open>
  A path that pathlib builds with \<^verbatim>\<open>/\<close>: the string it starts from (here \<^verbatim>\<open>output\<close>, as the
  caller gave it, relative or absolute) and the names joined to it, in order.
\<close>

type_synonym joined_path = "string \<times> string list"

definition child :: "joined_path \<Rightarrow> string \<Rightarrow> joined_path" where
  "child p part = (fst p, snd p @ [part])"

text \<open>The function that \<^verbatim>\<open>generate_docset\<close> binds to \<^verbatim>\<open>processor\<close>.\<close>

datatype docset_processor = Process_blueprint_docset | Process_cpp_docset

text \<open>
  The steps of \<^verbatim>\<open>generate_docset\<close> that act on the file system, each with the arguments
  the program gives it; \<open>Some e\<close> and \<open>Inl e\<close> say that the step raises \<open>e\<close>.
  \<^item> \<open>mkdir d\<close> is \<^verbatim>\<open>d.mkdir(parents=True, exist_ok=True)\<close>;
  \<^item> \<open>unpack_archive input d\<close> is \<^verbatim>\<open>setuptools.archive_util.unpack_archive(input, str(d))\<close>;
  \<^item> \<open>enter_directory d\<close> is \<^verbatim>\<open>chdir(d).__enter__()\<close>, and \<open>leave_directory\<close> its
    \<^verbatim>\<open>__exit__\<close>, which goes back to the working directory from before;
  \<^item> \<open>run_processor f d\<close> is \<^verbatim>\<open>f(d)\<close> while the working directory is \<open>d\<close>. Both processors
    first open \<^verbatim>\<open>d / ".." / ".." / "Include" / "CSS" / "udn_public.css"\<close>; a relative \<open>d\<close> is
    then looked up below \<open>d\<close> itself, so for a relative \<^verbatim>\<open>output\<close> this step raises;
  \<^item> \<open>generate_database db d entries\<close> is the call of that name.
\<close>

record file_system_steps =
  mkdir :: "joined_path \<Rightarrow> error option"
  unpack_archive :: "string \<Rightarrow> joined_path \<Rightarrow> error option"
  enter_directory :: "joined_path \<Rightarrow> error option"
  leave_directory :: "error option"
  run_processor :: "docset_processor \<Rightarrow> joined_path \<Rightarrow> error + Entry set"
  generate_database :: "joined_path \<Rightarrow> joined_path \<Rightarrow> Entry set \<Rightarrow> error option"

text \<open>
  \<^verbatim>\<open>
  with chdir(api_directory):
      entries = processor(api_directory)
  \<close>
  The working directory is restored also when the processor raises; an exception of
  \<^verbatim>\<open>__exit__\<close> is the one that is raised then.
\<close>

definition run_in_directory ::
  "file_system_steps \<Rightarrow> docset_processor \<Rightarrow> joined_path \<Rightarrow> error + Entry set" where
  "run_in_directory steps f api_directory =
     (case enter_directory steps api_directory of
        Some e \<Rightarrow> Inl e
      | None \<Rightarrow>
          (let outcome = run_processor steps f api_directory
           in case leave_directory steps of Some e \<Rightarrow> Inl e | None \<Rightarrow> outcome))"

text \<open>
  \<^verbatim>\<open>generate_docset(input, output)\<close>, up to its last statement, the call
  \<^verbatim>\<open>generate_plist(contents_directory / "Info.plist", mapping)\<close>. The result is \<open>Inl e\<close> when a
  step before that call raises \<open>e\<close>, \<open>Inr None\<close> when the function returns before it (an
  unsupported type), and \<open>Inr (Some (p, mapping))\<close> with the arguments of the call when
  it is reached. The statement before the call is
  \<^verbatim>\<open>
  if docset_type == "cpp":
      mapping.append(("dashIndexFilePath", "string", "en-US/API/index.html"))
  elif docset_type == "cpp":
      mapping.append(("dashIndexFilePath", "string", "en-US/BluepringAPI/index.html"))
  \<close>
\<close>

definition generate_docset ::
  "file_system_steps \<Rightarrow> string \<Rightarrow> string
   \<Rightarrow> error + (joined_path \<times> plist_item list) option" where
  "generate_docset steps input output =
     (case docset_type_of input of
        None \<Rightarrow> Inr None
      | Some docset_type \<Rightarrow>
          (let docset_name = ''UnrealEngine'' @ py_title docset_type @ ''.docset'';
               docset_directory = child (output, []) docset_name;
               contents_directory = child docset_directory ''Contents'';
               resources_directory = child contents_directory ''Resources'';
               documents_directory = child resources_directory ''Documents''
           in case mkdir steps documents_directory of
                Some e \<Rightarrow> Inl e
              | None \<Rightarrow>
                  (case (if docset_type = ''blueprint''
                         then Some (child (child documents_directory ''en-US'') ''BlueprintAPI'',
                                    ''Blueprint'', Process_blueprint_docset,
                                    ''https://docs.unrealengine.com/en-US/BlueprintAPI'')
                         else if docset_type = ''cpp''
                         then Some (child (child documents_directory ''en-US'') ''API'',
                                    ''C++'', Process_cpp_docset,
                                    ''https://docs.unrealengine.com/en-US/API'')
                         else None) of
                     None \<Rightarrow> Inr None
                   | Some (api_directory, label, processor', online) \<Rightarrow>
                       (let docset_label = ''Unreal Engine '' @ label @ '' Docset''
                        in case unpack_archive steps input documents_directory of
                             Some e \<Rightarrow> Inl e
                           | None \<Rightarrow>
                               (case run_in_directory steps processor' api_directory of
                                  Inl e \<Rightarrow> Inl e
                                | Inr entries' \<Rightarrow>
                                    (case generate_database steps
                                            (child resources_directory ''docSet.dsidx'')
                                            documents_directory entries' of
                                       Some e \<Rightarrow> Inl e
                                     | None \<Rightarrow>
                                         (let mapping =
                                                [(''CFBundleIdentifier'', ''string'', Some docset_name),
                                                 (''CFBundleName'', ''string'', Some docset_label),
                                                 (''DashDocSetDeclaredInStyle'', ''string'',
                                                  Some ''originalName''),
                                                 (''DashDocSetFallbackURL'', ''string'', Some online),
                                                 (''DashDocSetFamily'', ''string'', Some ''python''),
                                                 (''DocSetPlatformFamily'', ''string'',
                                                  Some ''Unreal Engine''),
                                                 (''isDashDocset'', ''true'', None),
                                                 (''isJavaScriptEnabled'', ''true'', None)];
                                              mapping =
                                                (if docset_type = ''cpp''
                                                 then mapping @
                                                        [(''dashIndexFilePath'', ''string'',
                                                          Some ''en-US/API/index.html'')]
                                                 else if docset_type = ''cpp''
                                                 then mapping @
                                                        [(''dashIndexFilePath'', ''string'',
                                                          Some ''en-US/BluepringAPI/index.html'')]
                                                 else mapping)
                                          in Inr (Some (child contents_directory ''Info.plist'',
                                                        mapping)))))))))"

section \<open>Example pages\<close>

text \<open>A page that has only its heading.\<close>

definition titled_page :: "string \<Rightarrow> element" where
  "titled_page title =
     Element ''html'' [] None
       [Element ''body'' [] None
          [Element ''h1'' [(''id'', ''H1TitleId'')] (Some title) [] None] None] None"

text \<open>A page without the heading.\<close>

definition untitled_page :: element where
  "untitled_page =
     Element ''html'' [] None
       [Element ''body'' [] None [Element ''p'' [] (Some ''text'') [] None] None] None"

text \<open>A page with the heading \<^verbatim>\<open>Foo\<close> and one syntax block.\<close>

definition foo_page :: element where
  "foo_page =
     Element ''html'' [] None
       [Element ''body'' [] None
          [Element ''h1'' [(''id'', ''H1TitleId'')] (Some ''Foo'') [] None,
           Element ''div'' [(''class'', ''simplecode_api'')] None
             [Element ''p'' [] (Some ''class Foo : public Bar'') [] None] None] None] None"

text \<open>An engine that rejects every pattern it is asked about.\<close>

definition no_engine :: "string \<Rightarrow> string \<Rightarrow> bool option" where
  "no_engine pattern s = None"

text \<open>
  A row of a member table: a cell for the type and a cell with the member, both of class
  \<^verbatim>\<open>name-cell\<close>.
\<close>

definition member_row :: "element list \<Rightarrow> element" where
  "member_row member =
     Element ''tr'' [] None
       [Element ''td'' [(''class'', ''name-cell'')] (Some ''void'') [] None,
        Element ''td'' [(''class'', ''name-cell'')] None member None] None"

definition member_table :: "string \<Rightarrow> element list \<Rightarrow> element" where
  "member_table region rows =
     Element ''div'' [(''id'', region)] None [Element ''table'' [] None rows None] None"

definition link_to :: "string \<Rightarrow> string \<Rightarrow> element" where
  "link_to href label = Element ''a'' [(''href'', href)] (Some label) [] None"

text \<open>
  The page of a class \<^verbatim>\<open>UFoo\<close> with a variable that has no page of its own, two functions
  and a deprecated function. The pages of all three functions have the heading
  \<^verbatim>\<open>UFoo::Go\<close>.
\<close>

definition ufoo_page :: element where
  "ufoo_page =
     Element ''html'' [] None
       [Element ''body'' [] None
          [Element ''h1'' [(''id'', ''H1TitleId'')] (Some ''UFoo'') [] None,
           Element ''div'' [(''class'', ''simplecode_api'')] None
             [Element ''p'' [] (Some ''class UFoo : public UObject'') [] None] None,
           member_table ''variables''
             [member_row [Element ''p'' [] (Some ''Count'') [] None]],
           member_table ''functions_0''
             [member_row [link_to ''Go/index.html'' ''Go''],
              member_row [link_to ''Go2/index.html'' ''Go'']],
           member_table ''deprecatedfunctions''
             [member_row [link_to ''GoOld/index.html'' ''Go'']]] None] None"

definition ufoo_path :: string where
  "ufoo_path = ''API/UFoo/index.html''"

definition ufoo_files :: "string list" where
  "ufoo_files =
     [''API/UFoo/index.html'', ''API/UFoo/Go/index.html'', ''API/UFoo/Go2/index.html'',
      ''API/UFoo/GoOld/index.html'']"

text \<open>A world with these four files, where reading the page gives the tree \<open>page\<close>.\<close>

definition ufoo_world :: "element \<Rightarrow> world" where
  "ufoo_world page =
     \<lparr>path_exists = (\<lambda>p. p \<in> set ufoo_files),
      index_exists = (\<lambda>html_path link. False),
      try_read = (\<lambda>p i. if p = ufoo_path then Parsed page
                          else if p \<in> set ufoo_files then Parsed (titled_page ''UFoo::Go'')
                          else Raises OSError),
      re_engine = no_engine\<rparr>"

text \<open>The same page with the anchors that processing it adds.\<close>

definition ufoo_page_anchored :: element where
  "ufoo_page_anchored =
     Element ''html'' [] None
       [Element ''body'' [] None
          [Element ''h1'' [(''id'', ''H1TitleId'')] (Some ''UFoo'') [] None,
           Element ''div'' [(''class'', ''simplecode_api'')] None
             [Element ''p'' [] (Some ''class UFoo : public UObject'') [] None] None,
           member_table ''variables''
             [member_row [Element ''p'' [] (Some ''Count'') [] None]],
           member_table ''functions_0''
             [member_row [dash_anchor (Some ''Function'') ''Go'', link_to ''Go/index.html'' ''Go''],
              member_row [dash_anchor (Some ''Function'') ''Go (Overload 1)'',
                          link_to ''Go2/index.html'' ''Go'']],
           member_table ''deprecatedfunctions''
             [member_row [dash_anchor (Some ''Function'') ''Go'',
                          link_to ''GoOld/index.html'' ''Go'']]] None] None"

text \<open>
  A run in which every step on the file system goes through, as for an absolute output
  directory that exists and an archive of the vendor; the pages give no entries.
\<close>

definition working_steps :: file_system_steps where
  "working_steps =
     \<lparr>mkdir = (\<lambda>d. None),
      unpack_archive = (\<lambda>input d. None),
      enter_directory = (\<lambda>d. None),
      leave_directory = None,
      run_processor = (\<lambda>f d. Inr {}),
      generate_database = (\<lambda>db d found. None)\<rparr>"

text \<open>A run in which the processor cannot open the style sheet.\<close>

definition missing_style_sheet_steps :: file_system_steps where
  "missing_style_sheet_steps = working_steps\<lparr>run_processor := (\<lambda>f d. Inl OSError)\<rparr>"

section \<open>Reading the result of a page\<close>

text \<open>The \<^verbatim>\<open>name\<close> attributes of the anchors a page got, in the order they were added.\<close>

definition anchor_names :: "page_state \<Rightarrow> string option list" where
  "anchor_names st = map (\<lambda>a. get_attr a ''name'') (added st)"

text \<open>\<^verbatim>\<open>collected_name.split("::")[-1]\<close> for the name of an entry.\<close>

definition entry_anchor_name :: "Entry \<Rightarrow> string" where
  "entry_anchor_name e =
     (case Entry.name e of None \<Rightarrow> [] | Some collected \<Rightarrow> last (py_split ''::'' collected))"

text \<open>
  The \<open>k\<close>-th name of a list with its overload number: the name itself when it does not
  occur before position \<open>k\<close>, and the name with \<^verbatim>\<open>" (Overload n)"\<close> when it occurs \<open>n > 0\<close>
  times before.
\<close>

definition numbered_name :: "string list \<Rightarrow> nat \<Rightarrow> string" where
  "numbered_name names k =
     (let n = count_list (take k names) (names ! k)
      in names ! k @ (if n = 0 then [] else '' (Overload '' @ py_str_nat n @ '')''))"

text \<open>
  The anchors for the entries of one collector, numbered among these entries only.
\<close>

definition collector_anchors :: "Entry list \<Rightarrow> element list" where
  "collector_anchors new =
     map (\<lambda>k. dash_anchor (Entry.type (new ! k)) (numbered_name (map entry_anchor_name new) k))
       [0..<length new]"

text \<open>
  The entries that the turn of each collector of the table adds to \<^verbatim>\<open>entries\<close>: one block
  for each collector, in table order, as long as no turn raises.
\<close>

fun collector_blocks ::
  "world \<Rightarrow> bool \<Rightarrow> ApiInformation \<Rightarrow> string \<Rightarrow> Collector list \<Rightarrow> page_state
   \<Rightarrow> Entry list list" where
  "collector_blocks w inject api_information html_path [] st = []"
| "collector_blocks w inject api_information html_path (collector # collectors) st =
     (case process_collector w inject api_information html_path collector st of
        Inl e \<Rightarrow> []
      | Inr st' \<Rightarrow>
          drop (length (entries st)) (entries st')
            # collector_blocks w inject api_information html_path collectors st')"

text \<open>The blocks of a page, from the tree that was read as \<^verbatim>\<open>process_cpp_html_file\<close> goes on.\<close>

definition page_blocks ::
  "world \<Rightarrow> string \<Rightarrow> Collector list \<Rightarrow> bool \<Rightarrow> element \<Rightarrow> Entry list list" where
  "page_blocks w html_path collectors add_dash_anchors page =
     (let tree = rewrite_links (localiser w html_path) page
      in case collect_api_information (re_engine w) tree of
           Inl e \<Rightarrow> []
         | Inr api_information \<Rightarrow>
             collector_blocks w (add_dash_anchors \<and> \<not> has_dash_anchors tree)
               api_information html_path collectors
               \<lparr>xml = tree, elements = [], anchors = [], entries = [], added = []\<rparr>)"

section \<open>The reader: retry budget\<close>

lemma read_xml_loop_all_fail:
  "0 \<le> i \<Longrightarrow> \<forall>j. nat i \<le> j \<and> int j < attempts \<longrightarrow> outcome j = ParserError \<Longrightarrow>
   read_xml_loop outcome attempts i trace =
     (Inl RuntimeError, trace @ concat (replicate (nat (attempts - i)) [Attempt, Sleep_100ms]))"
proof (induction outcome attempts i trace rule: read_xml_loop.induct)
  case (1 outcome attempts i trace)
  show ?case
  proof (cases "i < attempts")
    case False
    then show ?thesis by (simp add: read_xml_loop.simps)
  next
    case True
    with "1.prems" have here: "outcome (nat i) = ParserError" by simp
    have next_ok: "\<forall>j. nat (i + 1) \<le> j \<and> int j < attempts \<longrightarrow> outcome j = ParserError"
      using "1.prems" by auto
    have step: "nat (attempts - i) = Suc (nat (attempts - (i + 1)))"
      using True by simp
    have "read_xml_loop outcome attempts i trace =
            read_xml_loop outcome attempts (i + 1) (trace @ [Attempt, Sleep_100ms])"
      using True here by (simp add: read_xml_loop.simps)
    also have "\<dots> = (Inl RuntimeError, (trace @ [Attempt, Sleep_100ms]) @
                 concat (replicate (nat (attempts - (i + 1))) [Attempt, Sleep_100ms]))"
      using "1.IH" [OF True here] "1.prems"(1) next_ok by simp
    finally show ?thesis by (simp add: step)
  qed
qed

lemma read_xml_loop_first_other:
  "0 \<le> i \<Longrightarrow> nat i \<le> k \<Longrightarrow> int k < attempts \<Longrightarrow>
   \<forall>j. nat i \<le> j \<and> j < k \<longrightarrow> outcome j = ParserError \<Longrightarrow>
   outcome k \<noteq> ParserError \<Longrightarrow>
   read_xml_loop outcome attempts i trace =
     ((case outcome k of Parsed tree \<Rightarrow> Inr tree | Raises e \<Rightarrow> Inl e | ParserError \<Rightarrow> Inl RuntimeError),
      trace @ concat (replicate (k - nat i) [Attempt, Sleep_100ms]) @ [Attempt])"
proof (induction outcome attempts i trace rule: read_xml_loop.induct)
  case (1 outcome attempts i trace)
  from "1.prems" have lt: "i < attempts" by linarith
  show ?case
  proof (cases "nat i = k")
    case True
    with "1.prems" lt show ?thesis
      by (cases "outcome k") (simp_all add: read_xml_loop.simps)
  next
    case False
    with "1.prems" have less: "nat i < k" by simp
    with "1.prems" have here: "outcome (nat i) = ParserError" by simp
    have next_le: "nat (i + 1) \<le> k" using less "1.prems"(1) by linarith
    have next_ok: "\<forall>j. nat (i + 1) \<le> j \<and> j < k \<longrightarrow> outcome j = ParserError"
      using "1.prems" by auto
    have step: "k - nat i = Suc (k - nat (i + 1))"
      using less "1.prems"(1) by linarith
    have "read_xml_loop outcome attempts i trace =
            read_xml_loop outcome attempts (i + 1) (trace @ [Attempt, Sleep_100ms])"
      using lt here by (simp add: read_xml_loop.simps)
    also have "\<dots> =
        ((case outcome k of Parsed tree \<Rightarrow> Inr tree | Raises e \<Rightarrow> Inl e | ParserError \<Rightarrow> Inl RuntimeError),
         (trace @ [Attempt, Sleep_100ms]) @
           concat (replicate (k - nat (i + 1)) [Attempt, Sleep_100ms]) @ [Attempt])"
      using "1.IH" [OF lt here _ next_le "1.prems"(3) next_ok "1.prems"(5)] "1.prems"(1) by simp
    finally show ?thesis by (simp add: step)
  qed
qed

text \<open>
  Claim C6. With the default budget of 10 attempts the reader raises its own
  \<open>RuntimeError\<close> (after ten attempts, each followed by a sleep of 100 ms) exactly when
  each of the ten attempts fails with a parser error; and when the attempts before the
  \<open>k\<close>-th one (\<open>k < 10\<close>) fail with a parser error and the \<open>k\<close>-th one parses, the reader
  returns that tree, having slept 100 ms after each failed attempt.
\<close>

theorem read_xml_file_retry_budget:
  "(read_xml_file outcome default_attempts =
      (Inl RuntimeError, concat (replicate 10 [Attempt, Sleep_100ms]))
    \<longleftrightarrow> (\<forall>j<10. outcome j = ParserError))
   \<and> (\<forall>k tree. k < 10 \<and> (\<forall>j<k. outcome j = ParserError) \<and> outcome k = Parsed tree \<longrightarrow>
         read_xml_file outcome default_attempts =
           (Inr tree, concat (replicate k [Attempt, Sleep_100ms]) @ [Attempt]))"
proof -
  have exhausted: "read_xml_file outcome default_attempts =
          (Inl RuntimeError, concat (replicate 10 [Attempt, Sleep_100ms]))"
    if all: "\<forall>j<10. outcome j = ParserError"
  proof -
    from all have "\<forall>j. nat 0 \<le> j \<and> int j < default_attempts \<longrightarrow> outcome j = ParserError"
      by (simp add: default_attempts_def)
    from read_xml_loop_all_fail [OF _ this, of "[]"] show ?thesis
      by (simp add: read_xml_file_def default_attempts_def)
  qed
  have first: "read_xml_file outcome default_attempts =
          ((case outcome k of Parsed tree \<Rightarrow> Inr tree | Raises e \<Rightarrow> Inl e
            | ParserError \<Rightarrow> Inl RuntimeError),
           concat (replicate k [Attempt, Sleep_100ms]) @ [Attempt])"
    if k: "k < 10" and before: "\<forall>j<k. outcome j = ParserError" and ne: "outcome k \<noteq> ParserError"
    for k
  proof -
    from k have lt: "int k < default_attempts" by (simp add: default_attempts_def)
    from before have "\<forall>j. nat 0 \<le> j \<and> j < k \<longrightarrow> outcome j = ParserError" by simp
    from read_xml_loop_first_other [OF _ _ lt this ne, of "[]"] show ?thesis
      by (simp add: read_xml_file_def)
  qed
  have only_then: "\<forall>j<10. outcome j = ParserError"
    if res: "read_xml_file outcome default_attempts =
                 (Inl RuntimeError, concat (replicate 10 [Attempt, Sleep_100ms]))"
  proof (rule ccontr)
    assume "\<not> (\<forall>j<10. outcome j = ParserError)"
    then have ex: "\<exists>j. j < 10 \<and> outcome j \<noteq> ParserError" by blast
    define k where "k = (LEAST j. j < 10 \<and> outcome j \<noteq> ParserError)"
    from ex have "k < 10 \<and> outcome k \<noteq> ParserError"
      unfolding k_def by (rule LeastI_ex)
    then have k: "k < 10" "outcome k \<noteq> ParserError" by simp_all
    have before: "\<forall>j<k. outcome j = ParserError"
    proof (intro allI impI)
      fix j assume j: "j < k"
      show "outcome j = ParserError"
      proof (rule ccontr)
        assume "outcome j \<noteq> ParserError"
        with j k(1) have "j < 10 \<and> outcome j \<noteq> ParserError" by simp
        then have "k \<le> j" unfolding k_def by (rule Least_le)
        with j show False by simp
      qed
    qed
    from first [OF k(1) before k(2)] res
    have "concat (replicate 10 [Attempt, Sleep_100ms]) =
            concat (replicate k [Attempt, Sleep_100ms]) @ [Attempt]"
      by simp
    then have "length (concat (replicate 10 [Attempt, Sleep_100ms])) =
                 length (concat (replicate k [Attempt, Sleep_100ms]) @ [Attempt])"
      by (rule arg_cong)
    then have "(20::nat) = 2 * k + 1"
      by (simp add: length_concat sum_list_replicate)
    then show False by presburger
  qed
  have parsed: "read_xml_file outcome default_attempts =
          (Inr tree, concat (replicate k [Attempt, Sleep_100ms]) @ [Attempt])"
    if "k < 10 \<and> (\<forall>j<k. outcome j = ParserError) \<and> outcome k = Parsed tree" for k tree
    using first [of k] that by simp
  from exhausted only_then parsed show ?thesis by blast
qed

theorem read_xml_file_retry_budget_witness:
  "read_xml_file (\<lambda>j. ParserError :: nat attempt) default_attempts =
     (Inl RuntimeError, concat (replicate 10 [Attempt, Sleep_100ms]))
   \<and> read_xml_file (\<lambda>j. if j < 3 then ParserError else Parsed (7::nat)) default_attempts =
     (Inr 7, [Attempt, Sleep_100ms, Attempt, Sleep_100ms, Attempt, Sleep_100ms, Attempt])"
proof
  show "read_xml_file (\<lambda>j. ParserError :: nat attempt) default_attempts =
          (Inl RuntimeError, concat (replicate 10 [Attempt, Sleep_100ms]))"
    using read_xml_file_retry_budget [of "\<lambda>j. ParserError :: nat attempt"] by simp
next
  have "(3::nat) < 10 \<and> (\<forall>j<3. (if j < (3::nat) then ParserError else Parsed (7::nat)) = ParserError)
        \<and> (if (3::nat) < 3 then ParserError else Parsed (7::nat)) = Parsed 7"
    by simp
  with read_xml_file_retry_budget [of "\<lambda>j. if j < 3 then ParserError else Parsed (7::nat)"]
  have "read_xml_file (\<lambda>j. if j < 3 then ParserError else Parsed (7::nat)) default_attempts =
          (Inr 7, concat (replicate 3 [Attempt, Sleep_100ms]) @ [Attempt])"
    by blast
  then show "read_xml_file (\<lambda>j. if j < 3 then ParserError else Parsed (7::nat)) default_attempts =
     (Inr 7, [Attempt, Sleep_100ms, Attempt, Sleep_100ms, Attempt, Sleep_100ms, Attempt])"
    by (simp add: numeral_3_eq_3)
qed

text \<open>
  Claim C10. Only parser errors are retried: when the first attempt ends in any other
  exception, the reader raises that exception after this one attempt, without a sleep and
  without a second attempt.
\<close>

theorem read_xml_file_other_error_immediate:
  "0 < attempts \<Longrightarrow> outcome 0 = Raises e \<Longrightarrow>
   read_xml_file outcome attempts = (Inl e, [Attempt])"
  by (simp add: read_xml_file_def read_xml_loop.simps)

theorem read_xml_file_other_error_immediate_witness:
  "0 < default_attempts \<and>
   read_xml_file (\<lambda>j. if j = 0 then Raises OSError else Parsed (7::nat)) default_attempts =
     (Inl OSError, [Attempt])"
proof -
  have pos: "0 < default_attempts" by (simp add: default_attempts_def)
  have first: "(\<lambda>j. if j = 0 then Raises OSError else Parsed (7::nat)) 0 = Raises OSError"
    by simp
  from read_xml_file_other_error_immediate
         [of default_attempts "\<lambda>j. if j = 0 then Raises OSError else Parsed (7::nat)" OSError,
          OF pos first] pos
  show ?thesis by simp
qed

section \<open>Nodes, children and XPath results\<close>

lemma self_in_descendant_or_self: "([], e) \<in> set (descendant_or_self e)"
  by (cases e) simp

lemma nth_child_in_descendants_from:
  "i < length cs \<Longrightarrow> ([j + i], cs ! i) \<in> set (descendants_from j cs)"
proof (induction cs arbitrary: i j)
  case Nil
  then show ?case by simp
next
  case (Cons c cs)
  show ?case
  proof (cases i)
    case 0
    have "([j], c) \<in> set (map (\<lambda>(q, d). (j # q, d)) (descendant_or_self c))"
      using self_in_descendant_or_self [of c] by force
    with 0 show ?thesis by simp
  next
    case (Suc i')
    with Cons.prems have "i' < length cs" by simp
    from Cons.IH [OF this, of "Suc j"] Suc show ?thesis by simp
  qed
qed

lemma descendant_nth_child:
  "(\<forall>q d i. (q, d) \<in> set (descendant_or_self e) \<longrightarrow> i < length (children d) \<longrightarrow>
      (q @ [i], children d ! i) \<in> set (descendant_or_self e))"
  "(\<forall>q d i. (q, d) \<in> set (descendants_from j cs) \<longrightarrow> i < length (children d) \<longrightarrow>
      (q @ [i], children d ! i) \<in> set (descendants_from j cs))"
proof (induction e and j cs rule: descendant_or_self_descendants_from.induct)
  case (1 t a x cs tx)
  show ?case
  proof (intro allI impI)
    fix q d i
    assume in_dos: "(q, d) \<in> set (descendant_or_self (Element t a x cs tx))"
      and i: "i < length (children d)"
    from in_dos have "(q, d) = ([], Element t a x cs tx) \<or> (q, d) \<in> set (descendants_from 0 cs)"
      by simp
    then show "(q @ [i], children d ! i) \<in> set (descendant_or_self (Element t a x cs tx))"
    proof
      assume "(q, d) = ([], Element t a x cs tx)"
      with i nth_child_in_descendants_from [of i cs 0] show ?thesis by simp
    next
      assume "(q, d) \<in> set (descendants_from 0 cs)"
      with 1 i show ?thesis by simp
    qed
  qed
next
  case (2 j)
  show ?case by simp
next
  case (3 j c cs)
  show ?case
  proof (intro allI impI)
    fix q d i
    assume in_d: "(q, d) \<in> set (descendants_from j (c # cs))" and i: "i < length (children d)"
    from in_d have "(\<exists>q0. q = j # q0 \<and> (q0, d) \<in> set (descendant_or_self c))
                    \<or> (q, d) \<in> set (descendants_from (Suc j) cs)"
      by auto
    then show "(q @ [i], children d ! i) \<in> set (descendants_from j (c # cs))"
    proof
      assume "\<exists>q0. q = j # q0 \<and> (q0, d) \<in> set (descendant_or_self c)"
      then obtain q0 where q0: "q = j # q0" "(q0, d) \<in> set (descendant_or_self c)" by blast
      with 3(1) i have "(q0 @ [i], children d ! i) \<in> set (descendant_or_self c)" by blast
      then have "(j # (q0 @ [i]), children d ! i) \<in> set (descendants_from j (c # cs))" by force
      with q0(1) show ?thesis by simp
    next
      assume "(q, d) \<in> set (descendants_from (Suc j) cs)"
      with 3(2) i show ?thesis by simp
    qed
  qed
qed

lemma child_step_subset:
  "(i, c) \<in> set (fold apply_predicate ps xs) \<Longrightarrow> (i, c) \<in> set xs"
proof (induction ps arbitrary: xs)
  case Nil
  then show ?case by simp
next
  case (Cons p ps)
  from Cons.prems have "(i, c) \<in> set (fold apply_predicate ps (apply_predicate p xs))" by simp
  from Cons.IH [OF this] have "(i, c) \<in> set (apply_predicate p xs)" .
  then show ?case
    by (cases p) (auto split: if_splits)
qed

lemma child_step_child:
  "(i, c) \<in> set (child_step nm ps e) \<Longrightarrow> i < length (children e) \<and> c = children e ! i \<and> tag c = nm"
  unfolding child_step_def
  by (drule child_step_subset) (auto simp: in_set_enumerate_eq)

lemma child_step_attr_iff:
  "(i, c) \<in> set (child_step nm [AttrEq k v] e) \<longleftrightarrow>
     i < length (children e) \<and> c = children e ! i \<and> tag c = nm \<and> get_attr c k = Some v"
  unfolding child_step_def by (auto simp: in_set_enumerate_eq)

lemma select_descendant_iff:
  "q0 \<in> set (select [Step Descendant nm ps] p e) \<longleftrightarrow>
     (\<exists>q d i c. (q, d) \<in> set (descendant_or_self e)
        \<and> (i, c) \<in> set (child_step nm ps d) \<and> q0 = p @ q @ [i])"
proof
  assume "q0 \<in> set (select [Step Descendant nm ps] p e)"
  then obtain x y where "x \<in> set (descendant_or_self e)" "y \<in> set (child_step nm ps (snd x))"
    "q0 = p @ fst x @ [fst y]"
    by (auto simp: case_prod_unfold)
  then have "(fst x, snd x) \<in> set (descendant_or_self e)
       \<and> (fst y, snd y) \<in> set (child_step nm ps (snd x)) \<and> q0 = p @ fst x @ [fst y]"
    by simp
  then show "\<exists>q d i c. (q, d) \<in> set (descendant_or_self e)
        \<and> (i, c) \<in> set (child_step nm ps d) \<and> q0 = p @ q @ [i]"
    by blast
next
  assume "\<exists>q d i c. (q, d) \<in> set (descendant_or_self e)
        \<and> (i, c) \<in> set (child_step nm ps d) \<and> q0 = p @ q @ [i]"
  then obtain q d i c where "(q, d) \<in> set (descendant_or_self e)"
    "(i, c) \<in> set (child_step nm ps d)" "q0 = p @ q @ [i]"
    by blast
  then show "q0 \<in> set (select [Step Descendant nm ps] p e)"
    by (force simp: case_prod_unfold)
qed

lemma xml_xpath_descendant_attr:
  "xml_xpath [Step Descendant nm [AttrEq k v]] tree \<noteq> [] \<longleftrightarrow>
     list_ex (\<lambda>(q, d). has_child nm k v d) (descendant_or_self tree)"
proof
  assume "xml_xpath [Step Descendant nm [AttrEq k v]] tree \<noteq> []"
  then have "\<exists>x \<in> set (descendant_or_self tree).
               fst x \<in> set (select [Step Descendant nm [AttrEq k v]] [] tree)"
    unfolding xml_xpath_def filter_empty_conv
    by (simp add: case_prod_unfold del: select.simps)
  then obtain q0 where "q0 \<in> set (select [Step Descendant nm [AttrEq k v]] [] tree)"
    by blast
  then obtain q d i c where qd: "(q, d) \<in> set (descendant_or_self tree)"
    and ic: "(i, c) \<in> set (child_step nm [AttrEq k v] d)"
    unfolding select_descendant_iff by blast
  from ic have "c \<in> set (children d)" "tag c = nm" "get_attr c k = Some v"
    unfolding child_step_attr_iff by auto
  then have "has_child nm k v d" unfolding has_child_def list_ex_iff by blast
  with qd show "list_ex (\<lambda>(q, d). has_child nm k v d) (descendant_or_self tree)"
    unfolding list_ex_iff by blast
next
  assume "list_ex (\<lambda>(q, d). has_child nm k v d) (descendant_or_self tree)"
  then obtain q d where qd: "(q, d) \<in> set (descendant_or_self tree)" and hc: "has_child nm k v d"
    unfolding list_ex_iff by blast
  from hc obtain i where i: "i < length (children d)" "tag (children d ! i) = nm"
    "get_attr (children d ! i) k = Some v"
    unfolding has_child_def list_ex_iff by (auto simp: in_set_conv_nth)
  then have ic: "(i, children d ! i) \<in> set (child_step nm [AttrEq k v] d)"
    unfolding child_step_attr_iff by simp
  with qd have sel: "q @ [i] \<in> set (select [Step Descendant nm [AttrEq k v]] [] tree)"
    unfolding select_descendant_iff by auto
  from descendant_nth_child(1) [of tree] qd i(1)
  have mem: "(q @ [i], children d ! i) \<in> set (descendant_or_self tree)" by blast
  have "fst (q @ [i], children d ! i) \<in> set (select [Step Descendant nm [AttrEq k v]] [] tree)"
    using sel by (simp del: select.simps)
  with mem have "\<exists>x \<in> set (descendant_or_self tree).
               fst x \<in> set (select [Step Descendant nm [AttrEq k v]] [] tree)"
    by (rule bexI [rotated])
  then show "xml_xpath [Step Descendant nm [AttrEq k v]] tree \<noteq> []"
    unfolding xml_xpath_def filter_empty_conv
    by (simp add: case_prod_unfold del: select.simps)
qed

section \<open>Link rewriting keeps tags, children and other attributes\<close>

lemma get_attr_rewrite_links:
  "k \<notin> set link_attrs \<Longrightarrow> get_attr (rewrite_links repl e) k = get_attr e k"
proof (cases e)
  case (Element t a x cs tx)
  assume k: "k \<notin> set link_attrs"
  have "map_of (map (rewrite_attr repl) a) k = map_of a k"
    using k by (induction a) (auto simp: rewrite_attr_def)
  with Element show ?thesis by (simp add: get_attr_def)
qed

lemma tag_rewrite_links: "tag (rewrite_links repl e) = tag e"
  by (cases e) simp

lemma children_rewrite_links: "children (rewrite_links repl e) = map (rewrite_links repl) (children e)"
  by (cases e) simp

lemma descendant_or_self_rewrite_links:
  "descendant_or_self (rewrite_links repl e) =
     map (\<lambda>(q, d). (q, rewrite_links repl d)) (descendant_or_self e)"
  "descendants_from j (map (rewrite_links repl) cs) =
     map (\<lambda>(q, d). (q, rewrite_links repl d)) (descendants_from j cs)"
  by (induction e and j cs rule: descendant_or_self_descendants_from.induct)
     (auto simp: case_prod_unfold)

lemma has_child_rewrite_links:
  "k \<notin> set link_attrs \<Longrightarrow> has_child nm k v (rewrite_links repl d) = has_child nm k v d"
  unfolding has_child_def list_ex_iff
  by (auto simp: children_rewrite_links tag_rewrite_links get_attr_rewrite_links)

lemma has_dash_anchors_rewrite_links:
  "has_dash_anchors (rewrite_links repl tree) = has_dash_anchors tree"
proof -
  have cls: "''class'' \<notin> set link_attrs" by (simp add: link_attrs_def)
  show ?thesis
    unfolding has_dash_anchors_def length_0_conv xml_xpath_descendant_attr
      descendant_or_self_rewrite_links list_ex_iff
    by (simp add: has_child_rewrite_links [OF cls] case_prod_unfold)
qed

section \<open>The classifier\<close>

lemma no_title_heading_select:
  assumes "\<not> has_title_heading page"
  shows "select [Step Descendant ''h1'' [AttrEq ''id'' ''H1TitleId'']] p page = []"
proof (rule ccontr)
  assume "select [Step Descendant ''h1'' [AttrEq ''id'' ''H1TitleId'']] p page \<noteq> []"
  then have "hd (select [Step Descendant ''h1'' [AttrEq ''id'' ''H1TitleId'']] p page)
               \<in> set (select [Step Descendant ''h1'' [AttrEq ''id'' ''H1TitleId'']] p page)"
    by (rule hd_in_set)
  then obtain q0 where "q0 \<in> set (select [Step Descendant ''h1'' [AttrEq ''id'' ''H1TitleId'']] p page)"
    ..
  then obtain q d i c where qd: "(q, d) \<in> set (descendant_or_self page)"
    and ic: "(i, c) \<in> set (child_step ''h1'' [AttrEq ''id'' ''H1TitleId''] d)"
    unfolding select_descendant_iff by blast
  from ic have c: "i < length (children d)" "c = children d ! i" "tag c = ''h1''"
    "get_attr c ''id'' = Some ''H1TitleId''"
    unfolding child_step_attr_iff by auto
  from descendant_nth_child(1) [of page] qd c(1,2)
  have "(q @ [i], c) \<in> set (descendant_or_self page)" by blast
  with c(3,4) have "has_title_heading page"
    unfolding has_title_heading_def list_ex_iff by force
  with assms show False by simp
qed

lemma collect_api_information_loop_name:
  "ApiInformation.name (collect_api_information_loop engine api_name api_syntax items) = Some api_name"
  by (induction items) (auto split: option.splits)

text \<open>
  Claim C9. On a tree without an \<^verbatim>\<open>h1\<close> element of id \<^verbatim>\<open>H1TitleId\<close> the classifier raises
  \<open>StopIteration\<close>; and every \<^verbatim>\<open>ApiInformation\<close> it returns has a name that is present,
  and not empty when the tree is one a parser built.
\<close>

theorem collect_api_information_needs_title:
  "(\<not> has_title_heading page \<longrightarrow> collect_api_information engine page = Inl StopIteration)
   \<and> (\<forall>info. collect_api_information engine page = Inr info \<longrightarrow>
         (\<exists>title. ApiInformation.name info = Some title \<and> (parsed_tree page \<longrightarrow> title \<noteq> [])))"
proof (intro conjI allI impI)
  assume "\<not> has_title_heading page"
  from no_title_heading_select [OF this, of "[]"]
  have "xpath_text [Step Descendant ''h1'' [AttrEq ''id'' ''H1TitleId'']] page = []"
    unfolding xpath_text_def by (simp del: select.simps)
  then show "collect_api_information engine page = Inl StopIteration"
    by (simp add: collect_api_information_def collect_api_name_and_syntax_def)
next
  fix info
  assume ok: "collect_api_information engine page = Inr info"
  then obtain title rest where
    texts: "xpath_text [Step Descendant ''h1'' [AttrEq ''id'' ''H1TitleId'']] page = title # rest"
    by (cases "xpath_text [Step Descendant ''h1'' [AttrEq ''id'' ''H1TitleId'']] page")
       (auto simp: collect_api_information_def collect_api_name_and_syntax_def)
  with ok have name_info: "ApiInformation.name info = Some title"
    by (auto simp: collect_api_information_def collect_api_name_and_syntax_def
          collect_api_information_loop_name)
  have "title \<in> set (xpath_text [Step Descendant ''h1'' [AttrEq ''id'' ''H1TitleId'']] page)"
    using texts by simp
  then have "title \<in> snd ` set (text_nodes [] page)"
    unfolding xpath_text_def by auto
  then have "parsed_tree page \<longrightarrow> title \<noteq> []"
    unfolding parsed_tree_def list_all_iff by auto
  with name_info
  show "\<exists>title. ApiInformation.name info = Some title \<and> (parsed_tree page \<longrightarrow> title \<noteq> [])"
    by blast
qed

theorem collect_api_information_needs_title_witness:
  "collect_api_information no_engine untitled_page = Inl StopIteration
   \<and> parsed_tree foo_page
   \<and> (\<exists>title. ApiInformation.name (projr (collect_api_information no_engine foo_page)) = Some title
         \<and> title \<noteq> [])"
proof (intro conjI)
  have "\<not> has_title_heading untitled_page" by code_simp
  with collect_api_information_needs_title [of untitled_page no_engine]
  show "collect_api_information no_engine untitled_page = Inl StopIteration" by blast
next
  show parsed: "parsed_tree foo_page" by code_simp
  have "\<not> isl (collect_api_information no_engine foo_page)" by code_simp
  then have "collect_api_information no_engine foo_page =
               Inr (projr (collect_api_information no_engine foo_page))"
    by (cases "collect_api_information no_engine foo_page") simp_all
  with collect_api_information_needs_title [of foo_page no_engine] parsed
  show "\<exists>title. ApiInformation.name (projr (collect_api_information no_engine foo_page)) = Some title
         \<and> title \<noteq> []"
    by blast
qed



section \<open>The page processor: entries and anchors\<close>

lemma add_dash_anchor_effect:
  assumes "add_dash_anchor i collected_name collected_type st = Inr st1"
  shows "entries st1 = entries st \<and>
         (\<exists>collected. collected_name = Some collected \<and>
            anchors st1 = anchors st @ [last (py_split ''::'' collected)] \<and>
            added st1 = added st @
              [dash_anchor collected_type
                 (last (py_split ''::'' collected)
                    @ overload_suffix (anchors st) (last (py_split ''::'' collected)))])"
  using assms
  by (auto simp: add_dash_anchor_def Let_def split: option.splits if_splits)

lemma process_collection_effect:
  "process_collection w collector_type inject i coll st = Inr st' \<Longrightarrow>
   \<exists>new. entries st' = entries st @ new
        \<and> map Entry.path new = filter (path_exists w) (map snd coll)
        \<and> length (added st') = length (added st) + (if inject then length new else 0)"
proof (induction coll arbitrary: i st)
  case Nil
  then show ?case by simp
next
  case (Cons item rest)
  obtain collected_name collected_html_path where item: "item = (collected_name, collected_html_path)"
    by (cases item)
  show ?case
  proof (cases "path_exists w collected_html_path")
    case False
    with Cons.prems item
    have "process_collection w collector_type inject (Suc i) rest st = Inr st'" by simp
    from Cons.IH [OF this] False item show ?thesis by simp
  next
    case True
    with Cons.prems item obtain collected_type st1 where
      ty: "refine_type w collector_type collected_html_path = Inr collected_type"
      and st1: "(if inject then add_dash_anchor i collected_name collected_type st else Inr st) = Inr st1"
      and rec: "process_collection w collector_type inject (Suc i) rest
                  (st1\<lparr>entries := entries st1 @
                       [\<lparr>Entry.name = collected_name, path = collected_html_path,
                         type = collected_type\<rparr>]\<rparr>) = Inr st'"
      by (auto split: sum.splits)
    have e1: "entries st1 = entries st"
      and a1: "length (added st1) = length (added st) + (if inject then 1 else 0)"
      using st1 add_dash_anchor_effect [of i collected_name collected_type st st1]
      by (auto split: if_splits)
    from Cons.IH [OF rec] obtain new where
      new: "entries st' = (entries st1 @ [\<lparr>Entry.name = collected_name, path = collected_html_path,
                                            type = collected_type\<rparr>]) @ new"
        "map Entry.path new = filter (path_exists w) (map snd rest)"
        "length (added st') = length (added st1) + (if inject then length new else 0)"
      by auto
    let ?new = "\<lparr>Entry.name = collected_name, path = collected_html_path, type = collected_type\<rparr> # new"
    have "entries st' = entries st @ ?new" using new(1) e1 by simp
    moreover have "map Entry.path ?new = filter (path_exists w) (map snd (item # rest))"
      using new(2) True item by simp
    moreover have "length (added st') = length (added st) + (if inject then length ?new else 0)"
      using new(3) a1 by simp
    ultimately show ?thesis by blast
  qed
qed

lemma process_collector_effect:
  assumes "process_collector w inject api_information html_path collector st = Inr st'"
  shows "\<exists>new. entries st' = entries st @ new
        \<and> list_all (\<lambda>e. path_exists w (Entry.path e)) new
        \<and> length (added st') = length (added st) + (if inject then length new else 0)"
proof -
  define st0 where
    "st0 = st\<lparr>elements := map fst (xml_xpath (Collector.xpath collector) (xml st)), anchors := []\<rparr>"
  from assms obtain coll where
    run: "process_collection w (Collector.type collector) inject 0 coll st0 = Inr st'"
    by (auto simp: process_collector_def Let_def st0_def split: sum.splits)
  have same: "entries st0 = entries st" "added st0 = added st" by (simp_all add: st0_def)
  from process_collection_effect [OF run] same obtain new where
    new: "entries st' = entries st @ new"
      "map Entry.path new = filter (path_exists w) (map snd coll)"
      "length (added st') = length (added st) + (if inject then length new else 0)"
    by auto
  have "\<forall>p \<in> set (map Entry.path new). path_exists w p"
    unfolding new(2) by simp
  then have "list_all (\<lambda>e. path_exists w (Entry.path e)) new"
    by (simp add: list_all_iff)
  with new(1,3) show ?thesis by blast
qed

lemma process_collectors_effect:
  "process_collectors w inject api_information html_path collectors st = Inr st' \<Longrightarrow>
   \<exists>new. entries st' = entries st @ new
        \<and> list_all (\<lambda>e. path_exists w (Entry.path e)) new
        \<and> length (added st') = length (added st) + (if inject then length new else 0)"
proof (induction collectors arbitrary: st)
  case Nil
  then show ?case by simp
next
  case (Cons collector collectors)
  from Cons.prems obtain st1 where
    one: "process_collector w inject api_information html_path collector st = Inr st1"
    and rest: "process_collectors w inject api_information html_path collectors st1 = Inr st'"
    by (auto split: sum.splits)
  from process_collector_effect [OF one] obtain new1 where
    n1: "entries st1 = entries st @ new1" "list_all (\<lambda>e. path_exists w (Entry.path e)) new1"
      "length (added st1) = length (added st) + (if inject then length new1 else 0)"
    by auto
  from Cons.IH [OF rest] obtain new2 where
    n2: "entries st' = entries st1 @ new2" "list_all (\<lambda>e. path_exists w (Entry.path e)) new2"
      "length (added st') = length (added st1) + (if inject then length new2 else 0)"
    by auto
  have "entries st' = entries st @ (new1 @ new2)" using n1(1) n2(1) by simp
  moreover have "list_all (\<lambda>e. path_exists w (Entry.path e)) (new1 @ new2)"
    using n1(2) n2(2) by simp
  moreover have "length (added st') = length (added st) + (if inject then length (new1 @ new2) else 0)"
    using n1(3) n2(3) by simp
  ultimately show ?case by blast
qed

lemma process_cpp_html_file_effect:
  assumes "process_cpp_html_file w html_path collectors add_dash_anchors = Inr st"
  shows "list_all (\<lambda>e. path_exists w (Entry.path e)) (entries st)
         \<and> (length (added st) = length (entries st) \<or> added st = [])"
proof -
  from assms obtain parsed api_information inject where
    run: "process_collectors w inject api_information html_path collectors
           \<lparr>xml = rewrite_links (localiser w html_path) parsed, elements = [], anchors = [],
            entries = [], added = []\<rparr> = Inr st"
    by (auto simp: process_cpp_html_file_def Let_def split: sum.splits)
  from process_collectors_effect [OF run] show ?thesis
    by (auto split: if_splits)
qed

lemma process_map_results:
  "process_map f xs = Inr ys \<Longrightarrow> list_all2 (\<lambda>x y. f x = Inr y) xs ys"
  by (induction xs arbitrary: ys) (auto split: sum.splits)

lemma process_cpp_docset_exist:
  assumes "process_cpp_docset w html_files = Inr result"
  shows "\<forall>e \<in> result. path_exists w (Entry.path e)"
proof
  fix e assume e: "e \<in> result"
  from assms obtain results where
    pm: "process_map (\<lambda>html_path. map_sum id entries
           (process_cpp_html_file w html_path COLLECTORS_CPP True)) html_files = Inr results"
    and res: "result = chain_set results"
    by (auto simp: process_cpp_docset_def split: sum.splits)
  from e res obtain r where r: "r \<in> set results" "e \<in> set r"
    by (auto simp: chain_set_def)
  from process_map_results [OF pm] r(1) obtain html_path where
    "map_sum id entries (process_cpp_html_file w html_path COLLECTORS_CPP True) = Inr r"
    by (auto simp: list_all2_conv_all_nth in_set_conv_nth)
  then obtain st where st: "process_cpp_html_file w html_path COLLECTORS_CPP True = Inr st" "r = entries st"
    by (cases "process_cpp_html_file w html_path COLLECTORS_CPP True") auto
  from process_cpp_html_file_effect [OF st(1)] r(2) st(2)
  show "path_exists w (Entry.path e)" by (auto simp: list_all_iff)
qed


text \<open>
  Claim C1. A pair whose target does not exist gets no entry and no anchor: the inner
  loop adds one entry for each pair of the collection whose target exists, in order, and
  with injection on one anchor for each of them. So every entry that the page processor
  returns, and every entry of the set that the docset processor returns, has a path that
  exists.
\<close>

theorem entries_reference_existing_files:
  "(process_collection w collector_type inject i coll st0 = Inr st1 \<longrightarrow>
      take (length (entries st0)) (entries st1) = entries st0
      \<and> map Entry.path (drop (length (entries st0)) (entries st1)) =
          filter (path_exists w) (map snd coll)
      \<and> length (added st1) =
          length (added st0) +
            (if inject then length (filter (path_exists w) (map snd coll)) else 0))
   \<and> (process_cpp_html_file w html_path collectors add_dash_anchors = Inr st \<longrightarrow>
        (\<forall>e \<in> set (entries st). path_exists w (Entry.path e)))
   \<and> (process_cpp_docset w html_files = Inr result \<longrightarrow>
        (\<forall>e \<in> result. path_exists w (Entry.path e)))"
proof (intro conjI impI)
  assume run: "process_collection w collector_type inject i coll st0 = Inr st1"
  from process_collection_effect [OF run] obtain new where
    new: "entries st1 = entries st0 @ new"
      "map Entry.path new = filter (path_exists w) (map snd coll)"
      "length (added st1) = length (added st0) + (if inject then length new else 0)"
    by blast
  from new(2) have len: "length new = length (filter (path_exists w) (map snd coll))"
    by (metis length_map)
  show "take (length (entries st0)) (entries st1) = entries st0" using new(1) by simp
  show "map Entry.path (drop (length (entries st0)) (entries st1)) =
          filter (path_exists w) (map snd coll)"
    using new(1,2) by simp
  show "length (added st1) =
          length (added st0) +
            (if inject then length (filter (path_exists w) (map snd coll)) else 0)"
    using new(3) len by simp
next
  assume "process_cpp_html_file w html_path collectors add_dash_anchors = Inr st"
  from process_cpp_html_file_effect [OF this]
  show "\<forall>e \<in> set (entries st). path_exists w (Entry.path e)"
    by (simp add: list_all_iff)
next
  assume "process_cpp_docset w html_files = Inr result"
  from process_cpp_docset_exist [OF this]
  show "\<forall>e \<in> result. path_exists w (Entry.path e)" .
qed

theorem entries_reference_existing_files_witness:
  "\<not> isl (process_cpp_html_file (ufoo_world ufoo_page) ufoo_path COLLECTORS_CPP True)
   \<and> list_all (\<lambda>e. path_exists (ufoo_world ufoo_page) (Entry.path e))
        (entries (projr (process_cpp_html_file (ufoo_world ufoo_page) ufoo_path COLLECTORS_CPP True)))
   \<and> map Entry.path
        (entries (projr (process_cpp_html_file (ufoo_world ufoo_page) ufoo_path COLLECTORS_CPP True))) =
       [''API/UFoo/Go/index.html'', ''API/UFoo/Go2/index.html'', ''API/UFoo/GoOld/index.html'']"
proof (intro conjI)
  show ok: "\<not> isl (process_cpp_html_file (ufoo_world ufoo_page) ufoo_path COLLECTORS_CPP True)"
    by code_simp
  then have "process_cpp_html_file (ufoo_world ufoo_page) ufoo_path COLLECTORS_CPP True =
      Inr (projr (process_cpp_html_file (ufoo_world ufoo_page) ufoo_path COLLECTORS_CPP True))"
    by (cases "process_cpp_html_file (ufoo_world ufoo_page) ufoo_path COLLECTORS_CPP True") simp_all
  with entries_reference_existing_files
         [of "ufoo_world ufoo_page" _ _ _ "[]" _ _ ufoo_path COLLECTORS_CPP True
             "projr (process_cpp_html_file (ufoo_world ufoo_page) ufoo_path COLLECTORS_CPP True)"]
  show "list_all (\<lambda>e. path_exists (ufoo_world ufoo_page) (Entry.path e))
        (entries (projr (process_cpp_html_file (ufoo_world ufoo_page) ufoo_path COLLECTORS_CPP True)))"
    by (simp add: list_all_iff)
  show "map Entry.path
        (entries (projr (process_cpp_html_file (ufoo_world ufoo_page) ufoo_path COLLECTORS_CPP True))) =
       [''API/UFoo/Go/index.html'', ''API/UFoo/Go2/index.html'', ''API/UFoo/GoOld/index.html'']"
    by code_simp
qed

section \<open>Pages that already have anchors\<close>

lemma process_collection_no_inject:
  "process_collection w collector_type False i coll st = Inr st' \<Longrightarrow>
   xml st' = xml st \<and> added st' = added st"
proof (induction coll arbitrary: i st)
  case Nil
  then show ?case by simp
next
  case (Cons item rest)
  obtain collected_name collected_html_path where item: "item = (collected_name, collected_html_path)"
    by (cases item)
  show ?case
  proof (cases "path_exists w collected_html_path")
    case False
    with Cons.prems item
    have "process_collection w collector_type False (Suc i) rest st = Inr st'" by simp
    from Cons.IH [OF this] show ?thesis .
  next
    case True
    with Cons.prems item obtain collected_type where
      rec: "process_collection w collector_type False (Suc i) rest
              (st\<lparr>entries := entries st @
                   [\<lparr>Entry.name = collected_name, path = collected_html_path,
                     type = collected_type\<rparr>]\<rparr>) = Inr st'"
      by (auto split: sum.splits)
    from Cons.IH [OF rec] show ?thesis by simp
  qed
qed

lemma process_collectors_no_inject:
  "process_collectors w False api_information html_path collectors st = Inr st' \<Longrightarrow>
   xml st' = xml st \<and> added st' = added st"
proof (induction collectors arbitrary: st)
  case Nil
  then show ?case by simp
next
  case (Cons collector collectors)
  from Cons.prems obtain st1 where
    one: "process_collector w False api_information html_path collector st = Inr st1"
    and rest: "process_collectors w False api_information html_path collectors st1 = Inr st'"
    by (auto split: sum.splits)
  define st0 where
    "st0 = st\<lparr>elements := map fst (xml_xpath (Collector.xpath collector) (xml st)), anchors := []\<rparr>"
  from one obtain coll where
    "process_collection w (Collector.type collector) False 0 coll st0 = Inr st1"
    by (auto simp: process_collector_def Let_def st0_def split: sum.splits)
  from process_collection_no_inject [OF this]
  have "xml st1 = xml st \<and> added st1 = added st" by (simp add: st0_def)
  with Cons.IH [OF rest] show ?case by simp
qed

text \<open>
  Claim C5. When the page that is read already has an element \<^verbatim>\<open>a\<close> of class
  \<^verbatim>\<open>dashAnchor\<close>, processing it adds no anchor, whatever \<^verbatim>\<open>add_dash_anchors\<close> is: the
  tree that is written back is the tree that was read with its links rewritten.
\<close>

theorem no_anchor_added_to_anchored_page:
  "fst (read_xml_file (try_read w html_path) default_attempts) = Inr page \<Longrightarrow>
   has_dash_anchors page \<Longrightarrow>
   process_cpp_html_file w html_path collectors add_dash_anchors = Inr st \<Longrightarrow>
   added st = [] \<and> xml st = rewrite_links (localiser w html_path) page"
proof -
  assume rd: "fst (read_xml_file (try_read w html_path) default_attempts) = Inr page"
    and has: "has_dash_anchors page"
    and run: "process_cpp_html_file w html_path collectors add_dash_anchors = Inr st"
  have inj: "(add_dash_anchors \<and> \<not> has_dash_anchors (rewrite_links (localiser w html_path) page))
               = False"
    using has by (simp add: has_dash_anchors_rewrite_links)
  from run rd obtain api_information where
    "process_collectors w
       (add_dash_anchors \<and> \<not> has_dash_anchors (rewrite_links (localiser w html_path) page))
       api_information html_path collectors
       \<lparr>xml = rewrite_links (localiser w html_path) page, elements = [], anchors = [],
        entries = [], added = []\<rparr> = Inr st"
    by (auto simp: process_cpp_html_file_def Let_def split: sum.splits)
  then have "process_collectors w False api_information html_path collectors
       \<lparr>xml = rewrite_links (localiser w html_path) page, elements = [], anchors = [],
        entries = [], added = []\<rparr> = Inr st"
    unfolding inj .
  from process_collectors_no_inject [OF this] show ?thesis by simp
qed

theorem no_anchor_added_to_anchored_page_witness:
  "fst (read_xml_file (try_read (ufoo_world ufoo_page_anchored) ufoo_path) default_attempts) =
     Inr ufoo_page_anchored
   \<and> has_dash_anchors ufoo_page_anchored
   \<and> \<not> isl (process_cpp_html_file (ufoo_world ufoo_page_anchored) ufoo_path COLLECTORS_CPP True)
   \<and> added (projr (process_cpp_html_file (ufoo_world ufoo_page_anchored) ufoo_path
                     COLLECTORS_CPP True)) = []
   \<and> xml (projr (process_cpp_html_file (ufoo_world ufoo_page_anchored) ufoo_path
                   COLLECTORS_CPP True)) = ufoo_page_anchored
   \<and> map_sum id xml (process_cpp_html_file (ufoo_world ufoo_page) ufoo_path COLLECTORS_CPP True) =
       Inr ufoo_page_anchored"
proof (intro conjI)
  show rd: "fst (read_xml_file (try_read (ufoo_world ufoo_page_anchored) ufoo_path) default_attempts) =
     Inr ufoo_page_anchored"
    by (simp add: ufoo_world_def read_xml_file_def read_xml_loop.simps default_attempts_def)
  show has: "has_dash_anchors ufoo_page_anchored" by code_simp
  show ok: "\<not> isl (process_cpp_html_file (ufoo_world ufoo_page_anchored) ufoo_path COLLECTORS_CPP True)"
    by code_simp
  then have run: "process_cpp_html_file (ufoo_world ufoo_page_anchored) ufoo_path COLLECTORS_CPP True =
      Inr (projr (process_cpp_html_file (ufoo_world ufoo_page_anchored) ufoo_path COLLECTORS_CPP True))"
    by (cases "process_cpp_html_file (ufoo_world ufoo_page_anchored) ufoo_path COLLECTORS_CPP True")
       simp_all
  note applied = no_anchor_added_to_anchored_page [OF rd has run]
  from applied show "added (projr (process_cpp_html_file (ufoo_world ufoo_page_anchored) ufoo_path
                     COLLECTORS_CPP True)) = []"
    by simp
  have same: "rewrite_links (localiser (ufoo_world ufoo_page_anchored) ufoo_path) ufoo_page_anchored
                = ufoo_page_anchored"
    by code_simp
  from applied same show "xml (projr (process_cpp_html_file (ufoo_world ufoo_page_anchored) ufoo_path
                   COLLECTORS_CPP True)) = ufoo_page_anchored"
    by simp
  show "map_sum id xml (process_cpp_html_file (ufoo_world ufoo_page) ufoo_path COLLECTORS_CPP True) =
       Inr ufoo_page_anchored"
    by code_simp
qed

section \<open>Overload numbers\<close>

lemma process_collection_anchors:
  "process_collection w collector_type True i coll st = Inr st' \<Longrightarrow>
   \<exists>new. entries st' = entries st @ new
        \<and> anchors st' = anchors st @ map entry_anchor_name new
        \<and> added st' = added st @
             map (\<lambda>k. dash_anchor (Entry.type (new ! k))
                        (entry_anchor_name (new ! k) @
                           overload_suffix (anchors st @ take k (map entry_anchor_name new))
                             (entry_anchor_name (new ! k))))
               [0..<length new]"
proof (induction coll arbitrary: i st)
  case Nil
  then show ?case by simp
next
  case (Cons item rest)
  obtain collected_name collected_html_path where item: "item = (collected_name, collected_html_path)"
    by (cases item)
  show ?case
  proof (cases "path_exists w collected_html_path")
    case False
    with Cons.prems item
    have "process_collection w collector_type True (Suc i) rest st = Inr st'" by simp
    from Cons.IH [OF this] show ?thesis .
  next
    case True
    with Cons.prems item obtain collected_type st1 where
      st1: "add_dash_anchor i collected_name collected_type st = Inr st1"
      and rec: "process_collection w collector_type True (Suc i) rest
                  (st1\<lparr>entries := entries st1 @
                       [\<lparr>Entry.name = collected_name, path = collected_html_path,
                         type = collected_type\<rparr>]\<rparr>) = Inr st'"
      by (auto split: sum.splits)
    define e where
      "e = \<lparr>Entry.name = collected_name, path = collected_html_path, type = collected_type\<rparr>"
    from add_dash_anchor_effect [OF st1] obtain collected where
      one: "entries st1 = entries st" "collected_name = Some collected"
        "anchors st1 = anchors st @ [last (py_split ''::'' collected)]"
        "added st1 = added st @
           [dash_anchor collected_type
              (last (py_split ''::'' collected)
                 @ overload_suffix (anchors st) (last (py_split ''::'' collected)))]"
      by blast
    have nm: "entry_anchor_name e = last (py_split ''::'' collected)"
      using one(2) by (simp add: entry_anchor_name_def e_def)
    have ty: "Entry.type e = collected_type" by (simp add: e_def)
    from Cons.IH [OF rec] obtain new where
      new: "entries st' = (entries st1 @ [e]) @ new"
        "anchors st' = anchors st1 @ map entry_anchor_name new"
        "added st' = added st1 @
           map (\<lambda>k. dash_anchor (Entry.type (new ! k))
                      (entry_anchor_name (new ! k) @
                         overload_suffix (anchors st1 @ take k (map entry_anchor_name new))
                           (entry_anchor_name (new ! k))))
             [0..<length new]"
      unfolding e_def by auto
    have "entries st' = entries st @ (e # new)" using new(1) one(1) by simp
    moreover have "anchors st' = anchors st @ map entry_anchor_name (e # new)"
      using new(2) one(3) nm by simp
    moreover have "added st' = added st @
             map (\<lambda>k. dash_anchor (Entry.type ((e # new) ! k))
                        (entry_anchor_name ((e # new) ! k) @
                           overload_suffix (anchors st @ take k (map entry_anchor_name (e # new)))
                             (entry_anchor_name ((e # new) ! k))))
               [0..<length (e # new)]"
      using new(3) one(3,4) nm ty by (simp add: map_upt_Suc del: upt_Suc)
    ultimately show ?thesis by blast
  qed
qed

lemma overload_suffix_numbered:
  "k < length names \<Longrightarrow>
   names ! k @ overload_suffix (take k names) (names ! k) = numbered_name names k"
  by (simp add: overload_suffix_def numbered_name_def Let_def count_list_0_iff)

lemma process_collector_anchors:
  assumes "process_collector w True api_information html_path collector st = Inr st'"
  shows "\<exists>new. entries st' = entries st @ new \<and> added st' = added st @ collector_anchors new"
proof -
  define st0 where
    "st0 = st\<lparr>elements := map fst (xml_xpath (Collector.xpath collector) (xml st)), anchors := []\<rparr>"
  from assms obtain coll where
    run: "process_collection w (Collector.type collector) True 0 coll st0 = Inr st'"
    by (auto simp: process_collector_def Let_def st0_def split: sum.splits)
  from process_collection_anchors [OF run] obtain new where
    new: "entries st' = entries st @ new"
      "added st' = added st @
         map (\<lambda>k. dash_anchor (Entry.type (new ! k))
                    (entry_anchor_name (new ! k) @
                       overload_suffix (take k (map entry_anchor_name new))
                         (entry_anchor_name (new ! k))))
           [0..<length new]"
    by (auto simp: st0_def)
  have "map (\<lambda>k. dash_anchor (Entry.type (new ! k))
                    (entry_anchor_name (new ! k) @
                       overload_suffix (take k (map entry_anchor_name new))
                         (entry_anchor_name (new ! k))))
           [0..<length new] = collector_anchors new"
    unfolding collector_anchors_def
  proof (rule map_cong [OF refl])
    fix k assume "k \<in> set [0..<length new]"
    then have k: "k < length (map entry_anchor_name new)" by simp
    from overload_suffix_numbered [OF k] k
    show "dash_anchor (Entry.type (new ! k))
            (entry_anchor_name (new ! k) @
               overload_suffix (take k (map entry_anchor_name new)) (entry_anchor_name (new ! k))) =
          dash_anchor (Entry.type (new ! k)) (numbered_name (map entry_anchor_name new) k)"
      by simp
  qed
  with new show ?thesis by auto
qed

lemma process_collection_kept:
  "process_collection w collector_type inject i coll st = Inr st' \<Longrightarrow>
   \<exists>new. entries st' = entries st @ new
        \<and> map (\<lambda>e. (Entry.name e, Entry.path e)) new = filter (\<lambda>(n, p). path_exists w p) coll"
proof (induction coll arbitrary: i st)
  case Nil
  then show ?case by simp
next
  case (Cons item rest)
  obtain collected_name collected_html_path where item: "item = (collected_name, collected_html_path)"
    by (cases item)
  show ?case
  proof (cases "path_exists w collected_html_path")
    case False
    with Cons.prems item
    have "process_collection w collector_type inject (Suc i) rest st = Inr st'" by simp
    from Cons.IH [OF this] False item show ?thesis by simp
  next
    case True
    with Cons.prems item obtain collected_type st1 where
      st1: "(if inject then add_dash_anchor i collected_name collected_type st else Inr st) = Inr st1"
      and rec: "process_collection w collector_type inject (Suc i) rest
                  (st1\<lparr>entries := entries st1 @
                       [\<lparr>Entry.name = collected_name, path = collected_html_path,
                         type = collected_type\<rparr>]\<rparr>) = Inr st'"
      by (auto split: sum.splits)
    have e1: "entries st1 = entries st"
      using st1 add_dash_anchor_effect [of i collected_name collected_type st st1]
      by (auto split: if_splits)
    from Cons.IH [OF rec] obtain new where
      new: "entries st' = (entries st1 @ [\<lparr>Entry.name = collected_name, path = collected_html_path,
                                            type = collected_type\<rparr>]) @ new"
        "map (\<lambda>e. (Entry.name e, Entry.path e)) new = filter (\<lambda>(n, p). path_exists w p) rest"
      by auto
    let ?new = "\<lparr>Entry.name = collected_name, path = collected_html_path, type = collected_type\<rparr> # new"
    have "entries st' = entries st @ ?new" using new(1) e1 by simp
    moreover have "map (\<lambda>e. (Entry.name e, Entry.path e)) ?new =
                     filter (\<lambda>(n, p). path_exists w p) (item # rest)"
      using new(2) True item by simp
    ultimately show ?thesis by blast
  qed
qed

lemma process_collectors_blocks:
  "process_collectors w True api_information html_path collectors st = Inr st' \<Longrightarrow>
   length (collector_blocks w True api_information html_path collectors st) = length collectors
   \<and> entries st' = entries st @ concat (collector_blocks w True api_information html_path collectors st)
   \<and> added st' = added st @
        concat (map collector_anchors
                  (collector_blocks w True api_information html_path collectors st))"
proof (induction collectors arbitrary: st)
  case Nil
  then show ?case by simp
next
  case (Cons collector collectors)
  from Cons.prems obtain st1 where
    one: "process_collector w True api_information html_path collector st = Inr st1"
    and rest: "process_collectors w True api_information html_path collectors st1 = Inr st'"
    by (auto split: sum.splits)
  from process_collector_anchors [OF one] obtain new where
    new: "entries st1 = entries st @ new" "added st1 = added st @ collector_anchors new"
    by blast
  from new(1) have block: "drop (length (entries st)) (entries st1) = new" by simp
  have blocks: "collector_blocks w True api_information html_path (collector # collectors) st =
                  new # collector_blocks w True api_information html_path collectors st1"
    using one block by simp
  from Cons.IH [OF rest] new show ?case
    unfolding blocks by simp
qed

lemma count_list_replicate_same: "count_list (replicate m x) x = m"
  by (induction m) simp_all

text \<open>
  Claim C2, as the program has it. The list \<^verbatim>\<open>anchors\<close> is set to \<^verbatim>\<open>[]\<close> at the start of
  each collector, so a name is counted among the pairs that one collector keeps, and
  not across the table. In one turn of the outer loop the new entries are the pairs of
  this collector whose target exists, and the anchors added in this turn are the anchors
  of these entries numbered among themselves, whatever the turns before have left. For
  a page without anchors the entries are the blocks of the collectors in table order and
  the anchors are those of each block, numbered within the block. In such a numbering
  the first occurrence of a name has the bare name and the occurrence after \<open>m > 0\<close>
  earlier ones has \<^verbatim>\<open>" (Overload m)"\<close>; the second has \<^verbatim>\<open>" (Overload 1)"\<close>.
\<close>

theorem overload_counter_per_collector:
  "(process_collector w True api_information html_path collector st0 = Inr st1
    \<and> Collector.processor collector w
         (map snd (xml_xpath (Collector.xpath collector) (xml st0))) api_information html_path =
       Inr coll \<longrightarrow>
      entries st1 = entries st0 @ drop (length (entries st0)) (entries st1)
      \<and> map (\<lambda>e. (Entry.name e, Entry.path e)) (drop (length (entries st0)) (entries st1)) =
          filter (\<lambda>(n, p). path_exists w p) coll
      \<and> added st1 = added st0 @ collector_anchors (drop (length (entries st0)) (entries st1)))
   \<and> (fst (read_xml_file (try_read w html_path) default_attempts) = Inr page
      \<and> \<not> has_dash_anchors page
      \<and> process_cpp_html_file w html_path collectors True = Inr st \<longrightarrow>
        length (page_blocks w html_path collectors True page) = length collectors
        \<and> entries st = concat (page_blocks w html_path collectors True page)
        \<and> added st = concat (map collector_anchors (page_blocks w html_path collectors True page)))
   \<and> numbered_name (replicate (Suc m) n) m =
       (if m = 0 then n else n @ '' (Overload '' @ py_str_nat m @ '')'')
   \<and> numbered_name [n, n] 1 = n @ '' (Overload 1)''"
proof (intro conjI impI)
  assume h: "process_collector w True api_information html_path collector st0 = Inr st1
    \<and> Collector.processor collector w
         (map snd (xml_xpath (Collector.xpath collector) (xml st0))) api_information html_path =
       Inr coll"
  define st where
    "st = st0\<lparr>elements := map fst (xml_xpath (Collector.xpath collector) (xml st0)), anchors := []\<rparr>"
  from h have run: "process_collection w (Collector.type collector) True 0 coll st = Inr st1"
    by (auto simp: process_collector_def Let_def st_def)
  from process_collection_kept [OF run] obtain kept where
    kept: "entries st1 = entries st0 @ kept"
      "map (\<lambda>e. (Entry.name e, Entry.path e)) kept = filter (\<lambda>(n, p). path_exists w p) coll"
    by (auto simp: st_def)
  from h process_collector_anchors [of w api_information html_path collector st0 st1]
  obtain new where
    new: "entries st1 = entries st0 @ new" "added st1 = added st0 @ collector_anchors new"
    by blast
  from kept(1) have dk: "drop (length (entries st0)) (entries st1) = kept" by simp
  from new(1) have dn: "drop (length (entries st0)) (entries st1) = new" by simp
  show "entries st1 = entries st0 @ drop (length (entries st0)) (entries st1)"
    using kept(1) dk by simp
  show "map (\<lambda>e. (Entry.name e, Entry.path e)) (drop (length (entries st0)) (entries st1)) =
          filter (\<lambda>(n, p). path_exists w p) coll"
    using kept(2) dk by simp
  show "added st1 = added st0 @ collector_anchors (drop (length (entries st0)) (entries st1))"
    using new(2) dn by simp
next
  assume h: "fst (read_xml_file (try_read w html_path) default_attempts) = Inr page
    \<and> \<not> has_dash_anchors page
    \<and> process_cpp_html_file w html_path collectors True = Inr st"
  then have inj: "(True \<and> \<not> has_dash_anchors (rewrite_links (localiser w html_path) page)) = True"
    by (simp add: has_dash_anchors_rewrite_links)
  from h obtain api where
    api: "collect_api_information (re_engine w) (rewrite_links (localiser w html_path) page) = Inr api"
    and "process_collectors w
       (True \<and> \<not> has_dash_anchors (rewrite_links (localiser w html_path) page))
       api html_path collectors
       \<lparr>xml = rewrite_links (localiser w html_path) page, elements = [], anchors = [],
        entries = [], added = []\<rparr> = Inr st"
    by (auto simp: process_cpp_html_file_def Let_def split: sum.splits)
  then have run: "process_collectors w True api html_path collectors
       \<lparr>xml = rewrite_links (localiser w html_path) page, elements = [], anchors = [],
        entries = [], added = []\<rparr> = Inr st"
    unfolding inj by simp
  have blocks: "page_blocks w html_path collectors True page =
      collector_blocks w True api html_path collectors
        \<lparr>xml = rewrite_links (localiser w html_path) page, elements = [], anchors = [],
         entries = [], added = []\<rparr>"
    using api inj by (simp add: page_blocks_def Let_def)
  from process_collectors_blocks [OF run]
  show "length (page_blocks w html_path collectors True page) = length collectors"
    and "entries st = concat (page_blocks w html_path collectors True page)"
    and "added st = concat (map collector_anchors (page_blocks w html_path collectors True page))"
    unfolding blocks by simp_all
next
  have before: "take m (replicate (Suc m) n) = replicate m n"
    unfolding take_replicate by (simp add: min_def)
  have here: "replicate (Suc m) n ! m = n"
    by (rule nth_replicate) simp
  show "numbered_name (replicate (Suc m) n) m =
       (if m = 0 then n else n @ '' (Overload '' @ py_str_nat m @ '')'')"
    unfolding numbered_name_def Let_def before here count_list_replicate_same by simp
next
  have "py_str_nat 1 = ''1''" by code_simp
  then show "numbered_name [n, n] 1 = n @ '' (Overload 1)''"
    by (simp add: numbered_name_def)
qed

theorem overload_counter_per_collector_witness:
  "fst (read_xml_file (try_read (ufoo_world ufoo_page) ufoo_path) default_attempts) = Inr ufoo_page
   \<and> \<not> has_dash_anchors ufoo_page
   \<and> \<not> isl (process_cpp_html_file (ufoo_world ufoo_page) ufoo_path COLLECTORS_CPP True)
   \<and> page_blocks (ufoo_world ufoo_page) ufoo_path COLLECTORS_CPP True ufoo_page =
       replicate 11 [] @
       [[\<lparr>Entry.name = Some ''UFoo::Go'', path = ''API/UFoo/Go/index.html'',
          type = Some ''Function''\<rparr>,
         \<lparr>Entry.name = Some ''UFoo::Go'', path = ''API/UFoo/Go2/index.html'',
          type = Some ''Function''\<rparr>],
        [\<lparr>Entry.name = Some ''UFoo::Go'', path = ''API/UFoo/GoOld/index.html'',
          type = Some ''Function''\<rparr>]]
   \<and> added (projr (process_cpp_html_file (ufoo_world ufoo_page) ufoo_path COLLECTORS_CPP True)) =
       [dash_anchor (Some ''Function'') ''Go'',
        dash_anchor (Some ''Function'') ''Go (Overload 1)'',
        dash_anchor (Some ''Function'') ''Go'']"
proof (intro conjI)
  show rd: "fst (read_xml_file (try_read (ufoo_world ufoo_page) ufoo_path) default_attempts) =
              Inr ufoo_page"
    by (simp add: ufoo_world_def read_xml_file_def read_xml_loop.simps default_attempts_def)
  show no: "\<not> has_dash_anchors ufoo_page" by code_simp
  show ok: "\<not> isl (process_cpp_html_file (ufoo_world ufoo_page) ufoo_path COLLECTORS_CPP True)"
    by code_simp
  then have run: "process_cpp_html_file (ufoo_world ufoo_page) ufoo_path COLLECTORS_CPP True =
      Inr (projr (process_cpp_html_file (ufoo_world ufoo_page) ufoo_path COLLECTORS_CPP True))"
    by (cases "process_cpp_html_file (ufoo_world ufoo_page) ufoo_path COLLECTORS_CPP True") simp_all
  show blocks: "page_blocks (ufoo_world ufoo_page) ufoo_path COLLECTORS_CPP True ufoo_page =
       replicate 11 [] @
       [[\<lparr>Entry.name = Some ''UFoo::Go'', path = ''API/UFoo/Go/index.html'',
          type = Some ''Function''\<rparr>,
         \<lparr>Entry.name = Some ''UFoo::Go'', path = ''API/UFoo/Go2/index.html'',
          type = Some ''Function''\<rparr>],
        [\<lparr>Entry.name = Some ''UFoo::Go'', path = ''API/UFoo/GoOld/index.html'',
          type = Some ''Function''\<rparr>]]"
    by code_simp
  have numbered: "concat (map collector_anchors
       (replicate 11 [] @
        [[\<lparr>Entry.name = Some ''UFoo::Go'', path = ''API/UFoo/Go/index.html'',
           type = Some ''Function''\<rparr>,
          \<lparr>Entry.name = Some ''UFoo::Go'', path = ''API/UFoo/Go2/index.html'',
           type = Some ''Function''\<rparr>],
         [\<lparr>Entry.name = Some ''UFoo::Go'', path = ''API/UFoo/GoOld/index.html'',
           type = Some ''Function''\<rparr>]])) =
       [dash_anchor (Some ''Function'') ''Go'',
        dash_anchor (Some ''Function'') ''Go (Overload 1)'',
        dash_anchor (Some ''Function'') ''Go'']"
    by code_simp
  from overload_counter_per_collector
         [of "ufoo_world ufoo_page" _ ufoo_path _ _ _ _ ufoo_page COLLECTORS_CPP
             "projr (process_cpp_html_file (ufoo_world ufoo_page) ufoo_path COLLECTORS_CPP True)"]
       rd no run
  have "added (projr (process_cpp_html_file (ufoo_world ufoo_page) ufoo_path COLLECTORS_CPP True)) =
          concat (map collector_anchors
            (page_blocks (ufoo_world ufoo_page) ufoo_path COLLECTORS_CPP True ufoo_page))"
    by blast
  then show "added (projr (process_cpp_html_file (ufoo_world ufoo_page) ufoo_path COLLECTORS_CPP True)) =
       [dash_anchor (Some ''Function'') ''Go'',
        dash_anchor (Some ''Function'') ''Go (Overload 1)'',
        dash_anchor (Some ''Function'') ''Go'']"
    unfolding blocks numbered .
qed

text \<open>
  Claim C2, as stated, fails on the example page: its three functions have the same
  anchor name \<^verbatim>\<open>Go\<close>; the two of the rule for functions get \<^verbatim>\<open>Go\<close> and
  \<^verbatim>\<open>Go (Overload 1)\<close>, and the one of the rule for deprecated functions, the third
  occurrence on the page, gets the bare \<^verbatim>\<open>Go\<close> again, not \<^verbatim>\<open>Go (Overload 2)\<close>.
\<close>

theorem overload_counter_per_page_counterexample:
  "map_sum id anchor_names
     (process_cpp_html_file (ufoo_world ufoo_page) ufoo_path COLLECTORS_CPP True) =
   Inr [Some ''//apple_ref/cpp/Function/Go'',
        Some ''//apple_ref/cpp/Function/Go (Overload 1)'',
        Some ''//apple_ref/cpp/Function/Go'']
   \<and> map_sum id xml
       (process_cpp_html_file (ufoo_world ufoo_page) ufoo_path COLLECTORS_CPP True) =
     Inr ufoo_page_anchored"
  by code_simp

section \<open>The collector for members without a link\<close>

lemma collector_cpp_nohref_loop_map:
  "collector_cpp_nohref_loop parent html_path collection elems =
     collection @
       map (\<lambda>element.
              let member = (if ue_type parent \<noteq> None
                            then py_format (ApiInformation.name parent) @ ''.'' @ text_content element
                            else text_content element)
              in (Some member, html_path @ ''#'' @ member))
         elems"
  by (induction elems arbitrary: collection) (simp_all add: Let_def)

text \<open>
  Claim C3, as the program has it. The collector qualifies the text of an element with
  the name of the parent whenever the \<^verbatim>\<open>ue_type\<close> of the parent is not \<^verbatim>\<open>None\<close>, and leaves
  it bare only when it is \<^verbatim>\<open>None\<close>; the target is the page path, \<^verbatim>\<open>#\<close> and that name.
\<close>

theorem collector_cpp_nohref_names:
  "collector_cpp_nohref w elems parent html_path =
     Inr (map (\<lambda>element.
                 let member = (if ue_type parent \<noteq> None
                               then py_format (ApiInformation.name parent) @ ''.'' @ text_content element
                               else text_content element)
                 in (Some member, html_path @ ''#'' @ member))
            elems)"
  by (simp add: collector_cpp_nohref_def collector_cpp_nohref_loop_map)

theorem collector_cpp_nohref_names_witness:
  "collector_cpp_nohref (ufoo_world ufoo_page) [Element ''p'' [] (Some ''Count'') [] None]
     \<lparr>ApiInformation.name = Some ''UFoo'', ue_type = Some ''class'', dash_type = Some ''Class''\<rparr>
     ufoo_path =
     Inr [(Some ''UFoo.Count'', ''API/UFoo/index.html#UFoo.Count'')]
   \<and> collector_cpp_nohref (ufoo_world ufoo_page) [Element ''p'' [] (Some ''Count'') [] None]
     \<lparr>ApiInformation.name = Some ''UFoo'', ue_type = None, dash_type = None\<rparr>
     ufoo_path =
     Inr [(Some ''Count'', ''API/UFoo/index.html#Count'')]"
proof (intro conjI)
  have content: "text_content (Element ''p'' [] (Some ''Count'') [] None) = ''Count''"
    by (simp add: text_content_def)
  from collector_cpp_nohref_names
         [of "ufoo_world ufoo_page" "[Element ''p'' [] (Some ''Count'') [] None]"
             "\<lparr>ApiInformation.name = Some ''UFoo'', ue_type = Some ''class'',
               dash_type = Some ''Class''\<rparr>" ufoo_path] content
  show "collector_cpp_nohref (ufoo_world ufoo_page) [Element ''p'' [] (Some ''Count'') [] None]
     \<lparr>ApiInformation.name = Some ''UFoo'', ue_type = Some ''class'', dash_type = Some ''Class''\<rparr>
     ufoo_path =
     Inr [(Some ''UFoo.Count'', ''API/UFoo/index.html#UFoo.Count'')]"
    by (simp add: py_format_def ufoo_path_def Let_def)
  from collector_cpp_nohref_names
         [of "ufoo_world ufoo_page" "[Element ''p'' [] (Some ''Count'') [] None]"
             "\<lparr>ApiInformation.name = Some ''UFoo'', ue_type = None, dash_type = None\<rparr>"
             ufoo_path] content
  show "collector_cpp_nohref (ufoo_world ufoo_page) [Element ''p'' [] (Some ''Count'') [] None]
     \<lparr>ApiInformation.name = Some ''UFoo'', ue_type = None, dash_type = None\<rparr>
     ufoo_path =
     Inr [(Some ''Count'', ''API/UFoo/index.html#Count'')]"
    by (simp add: ufoo_path_def Let_def)
qed

text \<open>
  Claim C3, as stated, fails for a parent that is no class, struct or union: the
  classifier gives such a page the \<^verbatim>\<open>ue_type\<close> \<^verbatim>\<open>"object"\<close>, which is not \<^verbatim>\<open>None\<close>, and the
  collector qualifies the name all the same.
\<close>

theorem collector_cpp_nohref_object_parent_counterexample:
  "collect_api_information no_engine (titled_page ''UFoo'') =
     Inr \<lparr>ApiInformation.name = Some ''UFoo'', ue_type = Some ''object'', dash_type = Some ''Object''\<rparr>
   \<and> collector_cpp_nohref (ufoo_world ufoo_page) [Element ''p'' [] (Some ''Count'') [] None]
     \<lparr>ApiInformation.name = Some ''UFoo'', ue_type = Some ''object'', dash_type = Some ''Object''\<rparr>
     ufoo_path =
     Inr [(Some ''UFoo.Count'', ''API/UFoo/index.html#UFoo.Count'')]"
  by code_simp

section \<open>The docset processor: the set of entries\<close>

lemma chain_set_Union: "chain_set results = \<Union> (set ` set results)"
  by (simp add: chain_set_def)

text \<open>
  Claim C7. The docset processor returns the union of the lists of entries of the files.
  Two entries of the set with the same name, type and path are the same entry, the set
  has as many entries as there are distinct ones in the lists, joining the same lists
  twice gives the same set, and so does joining them in another order.
\<close>

theorem docset_entries_collapse_duplicates:
  "(process_cpp_docset w html_files = Inr result \<longrightarrow>
      (\<exists>results.
         process_map
           (\<lambda>html_path. map_sum id entries (process_cpp_html_file w html_path COLLECTORS_CPP True))
           html_files = Inr results
         \<and> result = \<Union> (set ` set results)))
   \<and> (\<forall>e1 \<in> chain_set results. \<forall>e2 \<in> chain_set results.
         Entry.name e1 = Entry.name e2 \<and> Entry.type e1 = Entry.type e2
           \<and> Entry.path e1 = Entry.path e2 \<longrightarrow> e1 = e2)
   \<and> card (chain_set results) = length (remdups (concat results))
   \<and> chain_set (results @ results) = chain_set results
   \<and> (mset results' = mset results \<longrightarrow> chain_set results' = chain_set results)"
proof (intro conjI impI ballI)
  assume "process_cpp_docset w html_files = Inr result"
  then show "\<exists>results.
         process_map
           (\<lambda>html_path. map_sum id entries (process_cpp_html_file w html_path COLLECTORS_CPP True))
           html_files = Inr results
         \<and> result = \<Union> (set ` set results)"
    by (auto simp: process_cpp_docset_def chain_set_Union split: sum.splits)
next
  fix e1 e2 :: Entry
  assume "Entry.name e1 = Entry.name e2 \<and> Entry.type e1 = Entry.type e2
           \<and> Entry.path e1 = Entry.path e2"
  then show "e1 = e2" by (cases e1, cases e2) simp
next
  show "card (chain_set results) = length (remdups (concat results))"
    unfolding chain_set_def by (rule card_set)
next
  show "chain_set (results @ results) = chain_set results"
    by (simp add: chain_set_def)
next
  assume "mset results' = mset results"
  then have "set results' = set results" by (rule mset_eq_setD)
  then show "chain_set results' = chain_set results"
    by (simp add: chain_set_Union)
qed

theorem docset_entries_collapse_duplicates_witness:
  "\<not> isl (process_cpp_docset (ufoo_world ufoo_page) [ufoo_path])
   \<and> (\<exists>results.
         process_map
           (\<lambda>html_path. map_sum id entries
              (process_cpp_html_file (ufoo_world ufoo_page) html_path COLLECTORS_CPP True))
           [ufoo_path] = Inr results
         \<and> projr (process_cpp_docset (ufoo_world ufoo_page) [ufoo_path]) = \<Union> (set ` set results))
   \<and> mset [[\<lparr>Entry.name = Some ''B'', path = ''b'', type = Some ''Class''\<rparr>],
            [\<lparr>Entry.name = Some ''A'', path = ''a'', type = Some ''Class''\<rparr>,
             \<lparr>Entry.name = Some ''B'', path = ''b'', type = Some ''Class''\<rparr>]] =
       mset [[\<lparr>Entry.name = Some ''A'', path = ''a'', type = Some ''Class''\<rparr>,
              \<lparr>Entry.name = Some ''B'', path = ''b'', type = Some ''Class''\<rparr>],
             [\<lparr>Entry.name = Some ''B'', path = ''b'', type = Some ''Class''\<rparr>]]
   \<and> chain_set [[\<lparr>Entry.name = Some ''B'', path = ''b'', type = Some ''Class''\<rparr>],
                 [\<lparr>Entry.name = Some ''A'', path = ''a'', type = Some ''Class''\<rparr>,
                  \<lparr>Entry.name = Some ''B'', path = ''b'', type = Some ''Class''\<rparr>]] =
       chain_set [[\<lparr>Entry.name = Some ''A'', path = ''a'', type = Some ''Class''\<rparr>,
                   \<lparr>Entry.name = Some ''B'', path = ''b'', type = Some ''Class''\<rparr>],
                  [\<lparr>Entry.name = Some ''B'', path = ''b'', type = Some ''Class''\<rparr>]]
   \<and> card (chain_set [[\<lparr>Entry.name = Some ''A'', path = ''a'', type = Some ''Class''\<rparr>,
                         \<lparr>Entry.name = Some ''B'', path = ''b'', type = Some ''Class''\<rparr>],
                        [\<lparr>Entry.name = Some ''B'', path = ''b'', type = Some ''Class''\<rparr>]]) = 2"
proof -
  let ?a = "\<lparr>Entry.name = Some ''A'', path = ''a'', type = Some ''Class''\<rparr>"
  let ?b = "\<lparr>Entry.name = Some ''B'', path = ''b'', type = Some ''Class''\<rparr>"
  let ?run = "process_cpp_docset (ufoo_world ufoo_page) [ufoo_path]"
  have ok: "\<not> isl ?run" by code_simp
  then have run: "?run = Inr (projr ?run)" by (cases ?run) simp_all
  have perm: "mset [[?b], [?a, ?b]] = mset [[?a, ?b], [?b]]" by (simp add: add.commute)
  note applied = docset_entries_collapse_duplicates
                   [of "ufoo_world ufoo_page" "[ufoo_path]" "projr ?run" "[[?a, ?b], [?b]]"
                       "[[?b], [?a, ?b]]"]
  from applied run have union: "\<exists>results.
         process_map
           (\<lambda>html_path. map_sum id entries
              (process_cpp_html_file (ufoo_world ufoo_page) html_path COLLECTORS_CPP True))
           [ufoo_path] = Inr results
         \<and> projr ?run = \<Union> (set ` set results)"
    by blast
  from applied perm have same: "chain_set [[?b], [?a, ?b]] = chain_set [[?a, ?b], [?b]]"
    by blast
  from applied have "card (chain_set [[?a, ?b], [?b]]) = length (remdups (concat [[?a, ?b], [?b]]))"
    by blast
  then have two: "card (chain_set [[?a, ?b], [?b]]) = 2" by simp
  from ok union perm same two show ?thesis by blast
qed

section \<open>The manifest of the two flavours\<close>

lemma docset_type_of_cases:
  "docset_type_of input = Some docset_type \<Longrightarrow> docset_type = ''blueprint'' \<or> docset_type = ''cpp''"
  by (auto simp: docset_type_of_def split: if_splits)

text \<open>
  Claim C8. Whenever \<^verbatim>\<open>generate_docset\<close> reaches the call of \<^verbatim>\<open>generate_plist\<close>, the list it
  passes has the item \<^verbatim>\<open>dashIndexFilePath\<close> with \<^verbatim>\<open>en-US/API/index.html\<close> for a C++ archive, and
  has no item \<^verbatim>\<open>dashIndexFilePath\<close> at all for a Blueprint archive: the branch that would
  add it repeats the condition of the first one.
\<close>

theorem generate_docset_index_file_path:
  "generate_docset steps input output = Inr (Some (plist_path, mapping)) \<Longrightarrow>
   (docset_type_of input = Some ''cpp'' \<longrightarrow>
      map_of mapping ''dashIndexFilePath'' = Some (''string'', Some ''en-US/API/index.html''))
   \<and> (docset_type_of input = Some ''blueprint'' \<longrightarrow>
        map_of mapping ''dashIndexFilePath'' = None)"
  by (auto simp: generate_docset_def Let_def split: option.splits sum.splits)

theorem generate_docset_index_file_path_witness:
  "docset_type_of ''/tmp/BlueprintAPI-HTML.tgz'' = Some ''blueprint''
   \<and> generate_docset working_steps ''/tmp/BlueprintAPI-HTML.tgz'' ''/tmp/docsets'' =
       Inr (Some
         ((''/tmp/docsets'', [''UnrealEngineBlueprint.docset'', ''Contents'', ''Info.plist'']),
          [(''CFBundleIdentifier'', ''string'', Some ''UnrealEngineBlueprint.docset''),
           (''CFBundleName'', ''string'', Some ''Unreal Engine Blueprint Docset''),
           (''DashDocSetDeclaredInStyle'', ''string'', Some ''originalName''),
           (''DashDocSetFallbackURL'', ''string'',
            Some ''https://docs.unrealengine.com/en-US/BlueprintAPI''),
           (''DashDocSetFamily'', ''string'', Some ''python''),
           (''DocSetPlatformFamily'', ''string'', Some ''Unreal Engine''),
           (''isDashDocset'', ''true'', None),
           (''isJavaScriptEnabled'', ''true'', None)]))
   \<and> map_of
        [(''CFBundleIdentifier'', ''string'', Some ''UnrealEngineBlueprint.docset''),
         (''CFBundleName'', ''string'', Some ''Unreal Engine Blueprint Docset''),
         (''DashDocSetDeclaredInStyle'', ''string'', Some ''originalName''),
         (''DashDocSetFallbackURL'', ''string'',
          Some ''https://docs.unrealengine.com/en-US/BlueprintAPI''),
         (''DashDocSetFamily'', ''string'', Some ''python''),
         (''DocSetPlatformFamily'', ''string'', Some ''Unreal Engine''),
         (''isDashDocset'', ''true'', None),
         (''isJavaScriptEnabled'', ''true'', None)] ''dashIndexFilePath'' = None
   \<and> docset_type_of ''/tmp/CppAPI-HTML.tgz'' = Some ''cpp''
   \<and> map_of (snd (the (projr (generate_docset working_steps ''/tmp/CppAPI-HTML.tgz''
                                   ''/tmp/docsets'')))) ''dashIndexFilePath'' =
       Some (''string'', Some ''en-US/API/index.html'')
   \<and> generate_docset missing_style_sheet_steps ''BlueprintAPI-HTML.tgz'' ''docsets'' = Inl OSError"
proof (intro conjI)
  show blueprint: "docset_type_of ''/tmp/BlueprintAPI-HTML.tgz'' = Some ''blueprint''"
    by code_simp
  show run: "generate_docset working_steps ''/tmp/BlueprintAPI-HTML.tgz'' ''/tmp/docsets'' =
       Inr (Some
         ((''/tmp/docsets'', [''UnrealEngineBlueprint.docset'', ''Contents'', ''Info.plist'']),
          [(''CFBundleIdentifier'', ''string'', Some ''UnrealEngineBlueprint.docset''),
           (''CFBundleName'', ''string'', Some ''Unreal Engine Blueprint Docset''),
           (''DashDocSetDeclaredInStyle'', ''string'', Some ''originalName''),
           (''DashDocSetFallbackURL'', ''string'',
            Some ''https://docs.unrealengine.com/en-US/BlueprintAPI''),
           (''DashDocSetFamily'', ''string'', Some ''python''),
           (''DocSetPlatformFamily'', ''string'', Some ''Unreal Engine''),
           (''isDashDocset'', ''true'', None),
           (''isJavaScriptEnabled'', ''true'', None)]))"
    by code_simp
  from generate_docset_index_file_path [OF run] blueprint
  show "map_of
        [(''CFBundleIdentifier'', ''string'', Some ''UnrealEngineBlueprint.docset''),
         (''CFBundleName'', ''string'', Some ''Unreal Engine Blueprint Docset''),
         (''DashDocSetDeclaredInStyle'', ''string'', Some ''originalName''),
         (''DashDocSetFallbackURL'', ''string'',
          Some ''https://docs.unrealengine.com/en-US/BlueprintAPI''),
         (''DashDocSetFamily'', ''string'', Some ''python''),
         (''DocSetPlatformFamily'', ''string'', Some ''Unreal Engine''),
         (''isDashDocset'', ''true'', None),
         (''isJavaScriptEnabled'', ''true'', None)] ''dashIndexFilePath'' = None"
    by blast
  show cpp: "docset_type_of ''/tmp/CppAPI-HTML.tgz'' = Some ''cpp''"
    by code_simp
  have "\<not> isl (generate_docset working_steps ''/tmp/CppAPI-HTML.tgz'' ''/tmp/docsets'')
        \<and> projr (generate_docset working_steps ''/tmp/CppAPI-HTML.tgz'' ''/tmp/docsets'') \<noteq> None"
    by code_simp
  then have "generate_docset working_steps ''/tmp/CppAPI-HTML.tgz'' ''/tmp/docsets'' =
      Inr (Some (fst (the (projr (generate_docset working_steps ''/tmp/CppAPI-HTML.tgz''
                                     ''/tmp/docsets''))),
                 snd (the (projr (generate_docset working_steps ''/tmp/CppAPI-HTML.tgz''
                                     ''/tmp/docsets'')))))"
    by (cases "generate_docset working_steps ''/tmp/CppAPI-HTML.tgz'' ''/tmp/docsets''") auto
  from generate_docset_index_file_path [OF this] cpp
  show "map_of (snd (the (projr (generate_docset working_steps ''/tmp/CppAPI-HTML.tgz''
                                   ''/tmp/docsets'')))) ''dashIndexFilePath'' =
       Some (''string'', Some ''en-US/API/index.html'')"
    by blast
  show "generate_docset missing_style_sheet_steps ''BlueprintAPI-HTML.tgz'' ''docsets'' = Inl OSError"
    by code_simp
qed

end
